theory Spec2Isabelle
  imports Main
begin

text \<open>
  A model of the logic-circuit simulator: the gates (\<^verbatim>\<open>gates.js\<close>), the input and output
  points (\<^verbatim>\<open>io.js\<close>) and the simulation that registers, links and propagates them
  (\<^verbatim>\<open>simulation.js\<close>). Objects live in a store and refer to one another by address;
  methods pass the state along and return an exception as a value.
\<close>

section \<open>Signals, nodes and the object store\<close>

text \<open>
  \<^verbatim>\<open>gates.js\<close> exports the two signal levels as the numbers 1 and 0. The constructor
  of \<^verbatim>\<open>InputPoint\<close> stores whatever initial value it is given, so a signal is modelled
  as a number and the two levels as constants.
\<close>

type_synonym signal = int

definition HIGH :: signal where
  "HIGH = 1"

definition LOW :: signal where
  "LOW = 0"

text \<open>
  Objects are compared by identity (\<^verbatim>\<open>includes\<close>, \<^verbatim>\<open>!==\<close>), so a reference is an
  address and the objects live in a store. The class of an object never changes:
  \<^verbatim>\<open>InputPoint\<close>, \<^verbatim>\<open>OutputPoint\<close>, or \<^verbatim>\<open>LogicGate\<close> and its three subclasses.
\<close>

type_synonym addr = nat

datatype gate_class = AndGate | NotGate | NAndGate | LogicGate

datatype node =
    InputPoint string signal "addr list"
  | OutputPoint string "addr option" signal
  | Gate gate_class string "addr list" signal "addr list" int

text \<open>
  The fields, in constructor order: \<^verbatim>\<open>InputPoint(name, value, outputs)\<close>,
  \<^verbatim>\<open>OutputPoint(name, input, value)\<close> and
  \<^verbatim>\<open>LogicGate(name, inputs, outputValue, outputs, maxInputs)\<close>.
  A field that a class does not have reads as \<^verbatim>\<open>undefined\<close>: \<open>None\<close> below.
\<close>

fun name_of :: "node \<Rightarrow> string" where
  "name_of (InputPoint nm v outs) = nm"
| "name_of (OutputPoint nm inp v) = nm"
| "name_of (Gate c nm ins ov outs mx) = nm"

fun outputs_of :: "node \<Rightarrow> addr list option" where
  "outputs_of (InputPoint nm v outs) = Some outs"
| "outputs_of (OutputPoint nm inp v) = None"
| "outputs_of (Gate c nm ins ov outs mx) = Some outs"

fun inputs_of :: "node \<Rightarrow> addr list option" where
  "inputs_of (InputPoint nm v outs) = None"
| "inputs_of (OutputPoint nm inp v) = None"
| "inputs_of (Gate c nm ins ov outs mx) = Some ins"

fun input_of :: "node \<Rightarrow> addr option" where
  "input_of (InputPoint nm v outs) = None"
| "input_of (OutputPoint nm inp v) = inp"
| "input_of (Gate c nm ins ov outs mx) = None"

text \<open>\<^verbatim>\<open>getOutput()\<close> exists in all three classes and reads the cached value.\<close>

fun getOutput :: "node \<Rightarrow> signal" where
  "getOutput (InputPoint nm v outs) = v"
| "getOutput (OutputPoint nm inp v) = v"
| "getOutput (Gate c nm ins ov outs mx) = ov"

fun set_outputs :: "addr list \<Rightarrow> node \<Rightarrow> node" where
  "set_outputs xs (InputPoint nm v outs) = InputPoint nm v xs"
| "set_outputs xs (OutputPoint nm inp v) = OutputPoint nm inp v"
| "set_outputs xs (Gate c nm ins ov outs mx) = Gate c nm ins ov xs mx"

fun set_inputs :: "addr list \<Rightarrow> node \<Rightarrow> node" where
  "set_inputs xs (InputPoint nm v outs) = InputPoint nm v outs"
| "set_inputs xs (OutputPoint nm inp v) = OutputPoint nm inp v"
| "set_inputs xs (Gate c nm ins ov outs mx) = Gate c nm xs ov outs mx"

fun set_input :: "addr option \<Rightarrow> node \<Rightarrow> node" where
  "set_input x (InputPoint nm v outs) = InputPoint nm v outs"
| "set_input x (OutputPoint nm inp v) = OutputPoint nm x v"
| "set_input x (Gate c nm ins ov outs mx) = Gate c nm ins ov outs mx"

fun set_value :: "signal \<Rightarrow> node \<Rightarrow> node" where
  "set_value x (InputPoint nm v outs) = InputPoint nm x outs"
| "set_value x (OutputPoint nm inp v) = OutputPoint nm inp x"
| "set_value x (Gate c nm ins ov outs mx) = Gate c nm ins x outs mx"

text \<open>The constructors of the classes, with their defaults.\<close>

definition new_InputPoint :: "string \<Rightarrow> signal \<Rightarrow> node" where
  "new_InputPoint nm initialState = InputPoint nm initialState []"

definition new_OutputPoint :: "string \<Rightarrow> node" where
  "new_OutputPoint nm = OutputPoint nm None LOW"

definition new_LogicGate :: "string \<Rightarrow> node" where
  "new_LogicGate nm = Gate LogicGate nm [] LOW [] 2"

definition new_AndGate :: "string \<Rightarrow> node" where
  "new_AndGate nm = Gate AndGate nm [] LOW [] 2"

definition new_NotGate :: "string \<Rightarrow> node" where
  "new_NotGate nm = Gate NotGate nm [] LOW [] 1"

definition new_NAndGate :: "string \<Rightarrow> int \<Rightarrow> node" where
  "new_NAndGate nm numInputs = Gate NAndGate nm [] LOW [] numInputs"

text \<open>
  What \<^verbatim>\<open>console.error\<close> and \<^verbatim>\<open>console.warn\<close> print is kept in the state, as
  structured messages: the texts of the source are fixed but for the names and numbers
  carried here.
\<close>

datatype message =
    Error_connect_not_added
  | Error_connect_invalid
  | Error_disconnect
  | Error_max_inputs string int
  | Error_invalid_value string
  | Warn_replacing string string

fun is_error :: "message \<Rightarrow> bool" where
  "is_error (Warn_replacing a b) = False"
| "is_error m = True"

text \<open>
  Exceptions: a \<^verbatim>\<open>TypeError\<close> (a property of \<^verbatim>\<open>undefined\<close> is read, or something that
  is not a function is called), a \<^verbatim>\<open>RangeError\<close> (the call stack is exhausted), a
  \<^verbatim>\<open>ReferenceError\<close> (an identifier that is not in scope), and the \<^verbatim>\<open>Error\<close> thrown by
  \<^verbatim>\<open>LogicGate.evaluate\<close>.
\<close>

datatype exn = TypeError | RangeError | ReferenceError | Error_evaluate

text \<open>
  The state: the store, the console, and the four arrays of the one \<^verbatim>\<open>Simulation\<close>
  object.
\<close>

record state =
  heap :: "addr \<Rightarrow> node"
  console :: "message list"
  components :: "addr list"
  inputPoints :: "addr list"
  outputPoints :: "addr list"
  gates :: "addr list"

text \<open>
  A method returns normally (\<open>None\<close>) or throws (\<open>Some e\<close>); either way the mutations
  it has made so far stay in the state.
\<close>

type_synonym outcome = "exn option \<times> state"

definition store :: "addr \<Rightarrow> node \<Rightarrow> state \<Rightarrow> state" where
  "store a nd s = s\<lparr>heap := (heap s)(a := nd)\<rparr>"

definition log_msg :: "message \<Rightarrow> state \<Rightarrow> state" where
  "log_msg m s = s\<lparr>console := console s @ [m]\<rparr>"

section \<open>Gate evaluation (gates.js)\<close>

text \<open>
  \<^verbatim>\<open>getInputValue(index)\<close>: the cached output of the source at that index of
  \<^verbatim>\<open>inputs\<close>, and LOW when the index is past the end.
\<close>

definition getInputValue :: "state \<Rightarrow> addr list \<Rightarrow> nat \<Rightarrow> signal" where
  "getInputValue s ins index =
     (if index < length ins then getOutput (heap s (ins ! index)) else LOW)"

definition AndGate_evaluate :: "addr \<Rightarrow> state \<Rightarrow> state" where
  "AndGate_evaluate this s =
     (case heap s this of
        Gate c nm ins ov outs mx \<Rightarrow>
          if int (length ins) < mx then store this (Gate c nm ins LOW outs mx) s
          else
            let val1 = getInputValue s ins 0;
                val2 = getInputValue s ins 1
            in store this
                 (Gate c nm ins (if val1 = HIGH \<and> val2 = HIGH then HIGH else LOW) outs mx) s
      | _ \<Rightarrow> s)"

definition NotGate_evaluate :: "addr \<Rightarrow> state \<Rightarrow> state" where
  "NotGate_evaluate this s =
     (case heap s this of
        Gate c nm ins ov outs mx \<Rightarrow>
          if length ins < 1 then store this (Gate c nm ins LOW outs mx) s
          else
            let val = getInputValue s ins 0
            in store this (Gate c nm ins (if val = HIGH then LOW else HIGH) outs mx) s
      | _ \<Rightarrow> s)"

definition NAndGate_evaluate :: "addr \<Rightarrow> state \<Rightarrow> state" where
  "NAndGate_evaluate this s =
     (case heap s this of
        Gate c nm ins ov outs mx \<Rightarrow>
          if length ins = 0 then store this (Gate c nm ins LOW outs mx) s
          else
            store this
              (Gate c nm ins
                 (if list_ex (\<lambda>i. getInputValue s ins i = LOW) [0..<length ins]
                  then LOW else HIGH) outs mx) s
      | _ \<Rightarrow> s)"

text \<open>
  \<^verbatim>\<open>x.evaluate()\<close>, dispatched on the class of \<open>x\<close>. The base class throws; the two
  I/O classes have no such method, and calling it is a \<^verbatim>\<open>TypeError\<close>.
\<close>

definition evaluate :: "addr \<Rightarrow> state \<Rightarrow> outcome" where
  "evaluate this s =
     (case heap s this of
        Gate c nm ins ov outs mx \<Rightarrow>
          (case c of
             AndGate \<Rightarrow> (None, AndGate_evaluate this s)
           | NotGate \<Rightarrow> (None, NotGate_evaluate this s)
           | NAndGate \<Rightarrow> (None, NAndGate_evaluate this s)
           | LogicGate \<Rightarrow> (Some Error_evaluate, s))
      | _ \<Rightarrow> (Some TypeError, s))"

text \<open>The cached output of the object at an address.\<close>

definition output_at :: "state \<Rightarrow> addr \<Rightarrow> signal" where
  "output_at s a = getOutput (heap s a)"

section \<open>Linking and unlinking (io.js, gates.js)\<close>

text \<open>
  The four linking methods call one another through the receiver's class
  (\<^verbatim>\<open>typeof x.m === 'function'\<close> guards most of the calls). The bodies below take the
  nested call as the parameter \<open>call\<close>; \<open>invoke\<close> ties the knot.
\<close>

datatype selector = AddOutput | AddInput | RemoveOutput | RemoveInput

fun responds_to :: "node \<Rightarrow> selector \<Rightarrow> bool" where
  "responds_to (InputPoint nm v outs) sel = (sel = AddOutput \<or> sel = RemoveOutput)"
| "responds_to (OutputPoint nm inp v) sel = (sel = AddInput \<or> sel = RemoveInput)"
| "responds_to (Gate c nm ins ov outs mx) sel = True"

type_synonym node_method = "addr \<Rightarrow> addr \<Rightarrow> state \<Rightarrow> outcome"

text \<open>
  \<^verbatim>\<open>InputPoint.addOutput\<close> and \<^verbatim>\<open>LogicGate.addOutput\<close> have the same body. The guard
  of the back-link reads \<^verbatim>\<open>destination.inputs.includes(this)\<close>; an \<^verbatim>\<open>OutputPoint\<close>
  has \<^verbatim>\<open>addInput\<close> but no field \<^verbatim>\<open>inputs\<close>, so for such a destination the guard
  throws.
\<close>

definition addOutput :: "(selector \<Rightarrow> node_method) \<Rightarrow> node_method" where
  "addOutput call this destination s =
     (case outputs_of (heap s this) of
        None \<Rightarrow> (Some TypeError, s)
      | Some outs \<Rightarrow>
          if destination \<in> set outs then (None, s)
          else
            let s1 = store this (set_outputs (outs @ [destination]) (heap s this)) s
            in if responds_to (heap s1 destination) AddInput then
                 (case inputs_of (heap s1 destination) of
                    None \<Rightarrow> (Some TypeError, s1)
                  | Some ins \<Rightarrow>
                      if this \<notin> set ins then call AddInput destination this s1
                      else (None, s1))
               else (None, s1))"

definition LogicGate_addInput :: "(selector \<Rightarrow> node_method) \<Rightarrow> node_method" where
  "LogicGate_addInput call this source s =
     (case heap s this of
        Gate c nm ins ov outs mx \<Rightarrow>
          if int (length ins) < mx then
            (if source \<notin> set ins then
               let s1 = store this (Gate c nm (ins @ [source]) ov outs mx) s
               in if responds_to (heap s1 source) AddOutput
                  then call AddOutput source this s1
                  else (None, s1)
             else (None, s))
          else (None, log_msg (Error_max_inputs nm mx) s)
      | _ \<Rightarrow> (Some TypeError, s))"

text \<open>\<^verbatim>\<open>OutputPoint.update()\<close>.\<close>

definition update :: "addr \<Rightarrow> state \<Rightarrow> state" where
  "update this s =
     (case input_of (heap s this) of
        Some src \<Rightarrow> store this (set_value (getOutput (heap s src)) (heap s this)) s
      | None \<Rightarrow> store this (set_value LOW (heap s this)) s)"

definition OutputPoint_addInput :: "(selector \<Rightarrow> node_method) \<Rightarrow> node_method" where
  "OutputPoint_addInput call this source s =
     (case (case input_of (heap s this) of
              Some old \<Rightarrow>
                if old \<noteq> source then
                  let s0 = log_msg
                        (Warn_replacing (name_of (heap s this)) (name_of (heap s old))) s
                  in if responds_to (heap s0 old) RemoveOutput
                     then call RemoveOutput old this s0
                     else (None, s0)
                else (None, s)
            | None \<Rightarrow> (None, s)) of
        (Some e, s1) \<Rightarrow> (Some e, s1)
      | (None, s1) \<Rightarrow>
          let s2 = store this (set_input (Some source) (heap s1 this)) s1
          in case (if responds_to (heap s2 source) AddOutput
                      \<and> this \<notin> set (case outputs_of (heap s2 source) of
                                       Some outs \<Rightarrow> outs | None \<Rightarrow> [])
                   then call AddOutput source this s2
                   else (None, s2)) of
               (Some e, s3) \<Rightarrow> (Some e, s3)
             | (None, s3) \<Rightarrow> (None, update this s3))"

text \<open>\<^verbatim>\<open>InputPoint.removeOutput\<close> and \<^verbatim>\<open>LogicGate.removeOutput\<close>: the same body.\<close>

definition removeOutput :: "(selector \<Rightarrow> node_method) \<Rightarrow> node_method" where
  "removeOutput call this destination s =
     (case outputs_of (heap s this) of
        None \<Rightarrow> (Some TypeError, s)
      | Some outs \<Rightarrow>
          let s1 = store this
                (set_outputs (filter (\<lambda>output. output \<noteq> destination) outs) (heap s this)) s
          in if responds_to (heap s1 destination) RemoveInput
             then call RemoveInput destination this s1
             else (None, s1))"

definition LogicGate_removeInput :: "(selector \<Rightarrow> node_method) \<Rightarrow> node_method" where
  "LogicGate_removeInput call this source s =
     (case heap s this of
        Gate c nm ins ov outs mx \<Rightarrow>
          let s1 = store this (Gate c nm (filter (\<lambda>input. input \<noteq> source) ins) ov outs mx) s
          in if responds_to (heap s1 source) RemoveOutput
             then call RemoveOutput source this s1
             else (None, s1)
      | _ \<Rightarrow> (Some TypeError, s))"

text \<open>\<^verbatim>\<open>OutputPoint.removeInput()\<close> takes no parameter: an argument is ignored.\<close>

definition OutputPoint_removeInput :: "(selector \<Rightarrow> node_method) \<Rightarrow> node_method" where
  "OutputPoint_removeInput call this ignored s =
     (case (case input_of (heap s this) of
              Some src \<Rightarrow>
                if responds_to (heap s src) RemoveOutput
                then call RemoveOutput src this s
                else (None, s)
            | None \<Rightarrow> (None, s)) of
        (Some e, s1) \<Rightarrow> (Some e, s1)
      | (None, s1) \<Rightarrow>
          (None, store this (set_value LOW (set_input None (heap s1 this))) s1))"

text \<open>
  Dynamic dispatch: the method of the receiver's class, and a \<^verbatim>\<open>TypeError\<close> where the
  class has no such method.
\<close>

definition method_body :: "(selector \<Rightarrow> node_method) \<Rightarrow> selector \<Rightarrow> node_method" where
  "method_body call sel this arg s =
     (case heap s this of
        InputPoint nm v outs \<Rightarrow>
          (case sel of
             AddOutput \<Rightarrow> addOutput call this arg s
           | RemoveOutput \<Rightarrow> removeOutput call this arg s
           | _ \<Rightarrow> (Some TypeError, s))
      | OutputPoint nm inp v \<Rightarrow>
          (case sel of
             AddInput \<Rightarrow> OutputPoint_addInput call this arg s
           | RemoveInput \<Rightarrow> OutputPoint_removeInput call this arg s
           | _ \<Rightarrow> (Some TypeError, s))
      | Gate c nm ins ov outs mx \<Rightarrow>
          (case sel of
             AddOutput \<Rightarrow> addOutput call this arg s
           | AddInput \<Rightarrow> LogicGate_addInput call this arg s
           | RemoveOutput \<Rightarrow> removeOutput call this arg s
           | RemoveInput \<Rightarrow> LogicGate_removeInput call this arg s))"

text \<open>
  A call needs a stack frame, and the stack is finite: \<open>invoke n\<close> runs a method with
  room for \<open>n\<close> nested frames, and a call that finds no room throws the \<^verbatim>\<open>RangeError\<close>
  of an exhausted call stack.
\<close>

primrec invoke :: "nat \<Rightarrow> selector \<Rightarrow> node_method" where
  "invoke 0 sel this arg s = (Some RangeError, s)"
| "invoke (Suc n) sel this arg s = method_body (invoke n) sel this arg s"

text \<open>\<^verbatim>\<open>InputPoint.setValue\<close> and \<^verbatim>\<open>InputPoint.toggle\<close>.\<close>

definition setValue :: "addr \<Rightarrow> signal \<Rightarrow> state \<Rightarrow> state" where
  "setValue this newValue s =
     (if newValue = HIGH \<or> newValue = LOW
      then store this (set_value newValue (heap s this)) s
      else log_msg (Error_invalid_value (name_of (heap s this))) s)"

definition toggle :: "addr \<Rightarrow> state \<Rightarrow> state" where
  "toggle this s =
     store this
       (set_value (if getOutput (heap s this) = HIGH then LOW else HIGH) (heap s this)) s"

section \<open>The simulation (simulation.js)\<close>

text \<open>\<^verbatim>\<open>xs.forEach(f)\<close>, where an exception thrown by \<open>f\<close> ends the iteration.\<close>

fun forEach :: "(addr \<Rightarrow> state \<Rightarrow> outcome) \<Rightarrow> addr list \<Rightarrow> state \<Rightarrow> outcome" where
  "forEach f [] s = (None, s)"
| "forEach f (x # xs) s =
     (case f x s of
        (Some e, s') \<Rightarrow> (Some e, s')
      | (None, s') \<Rightarrow> forEach f xs s')"

text \<open>
  \<^verbatim>\<open>component.constructor.name\<close>, and the test that guards the registration of a
  gate: \<^verbatim>\<open>component instanceof Object.getPrototypeOf(this.gates).constructor\<close>. The
  prototype of the array \<^verbatim>\<open>this.gates\<close> is \<^verbatim>\<open>Array.prototype\<close>, whose constructor is
  \<^verbatim>\<open>Array\<close>: the test asks whether the component is an array, and no node is one.
\<close>

fun is_InputPoint :: "node \<Rightarrow> bool" where
  "is_InputPoint (InputPoint nm v outs) = True"
| "is_InputPoint nd = False"

fun is_OutputPoint :: "node \<Rightarrow> bool" where
  "is_OutputPoint (OutputPoint nm inp v) = True"
| "is_OutputPoint nd = False"

fun is_Gate :: "node \<Rightarrow> bool" where
  "is_Gate (Gate c nm ins ov outs mx) = True"
| "is_Gate nd = False"

definition instanceof_Array :: "node \<Rightarrow> bool" where
  "instanceof_Array nd = False"

text \<open>\<^verbatim>\<open>typeof component.evaluate === 'function'\<close>: true of every gate class.\<close>

definition has_evaluate :: "node \<Rightarrow> bool" where
  "has_evaluate nd = is_Gate nd"

definition addComponent :: "addr \<Rightarrow> state \<Rightarrow> state" where
  "addComponent component s =
     (if component \<notin> set (components s) then
        let s1 = s\<lparr>components := components s @ [component]\<rparr>
        in if is_InputPoint (heap s1 component)
           then s1\<lparr>inputPoints := inputPoints s1 @ [component]\<rparr>
           else if is_OutputPoint (heap s1 component)
           then s1\<lparr>outputPoints := outputPoints s1 @ [component]\<rparr>
           else if instanceof_Array (heap s1 component)
           then (if has_evaluate (heap s1 component)
                 then s1\<lparr>gates := gates s1 @ [component]\<rparr>
                 else s1)
           else s1
      else s)"

text \<open>
  \<^verbatim>\<open>removeComponent\<close>. Each \<^verbatim>\<open>forEach\<close> runs over the array the field held when the
  loop began (\<^verbatim>\<open>filter\<close> makes new arrays). \<open>n\<close> is the room on the call stack.
\<close>

definition removeComponent :: "nat \<Rightarrow> addr \<Rightarrow> state \<Rightarrow> outcome" where
  "removeComponent n component s =
     (let s1 = s\<lparr>components := filter (\<lambda>c. c \<noteq> component) (components s)\<rparr>
      in if is_InputPoint (heap s1 component) then
           (let s2 = s1\<lparr>inputPoints := filter (\<lambda>ip. ip \<noteq> component) (inputPoints s1)\<rparr>
            in case forEach (\<lambda>outputConnection st.
                      if responds_to (heap st outputConnection) RemoveInput
                      then invoke n RemoveInput outputConnection component st
                      else (None, st))
                    (case outputs_of (heap s2 component) of Some outs \<Rightarrow> outs | None \<Rightarrow> []) s2 of
                 (Some e, s3) \<Rightarrow> (Some e, s3)
               | (None, s3) \<Rightarrow> (None, store component (set_outputs [] (heap s3 component)) s3))
         else if is_OutputPoint (heap s1 component) then
           (let s2 = s1\<lparr>outputPoints := filter (\<lambda>op. op \<noteq> component) (outputPoints s1)\<rparr>
            in case (case input_of (heap s2 component) of
                       Some src \<Rightarrow>
                         if responds_to (heap s2 src) RemoveOutput
                         then invoke n RemoveOutput src component s2
                         else (None, s2)
                     | None \<Rightarrow> (None, s2)) of
                 (Some e, s3) \<Rightarrow> (Some e, s3)
               | (None, s3) \<Rightarrow> (None, store component (set_input None (heap s3 component)) s3))
         else if has_evaluate (heap s1 component) then
           (let s2 = s1\<lparr>gates := filter (\<lambda>g. g \<noteq> component) (gates s1)\<rparr>
            in case forEach (\<lambda>inputSource st.
                      if responds_to (heap st inputSource) RemoveOutput
                      then invoke n RemoveOutput inputSource component st
                      else (None, st))
                    (case inputs_of (heap s2 component) of Some ins \<Rightarrow> ins | None \<Rightarrow> []) s2 of
                 (Some e, s3) \<Rightarrow> (Some e, s3)
               | (None, s3) \<Rightarrow>
                   (let s4 = store component (set_inputs [] (heap s3 component)) s3
                    in case forEach (\<lambda>outputConnection st.
                              if responds_to (heap st outputConnection) RemoveInput
                              then invoke n RemoveInput outputConnection component st
                              else (None, st))
                            (case outputs_of (heap s4 component) of
                               Some outs \<Rightarrow> outs | None \<Rightarrow> []) s4 of
                         (Some e, s5) \<Rightarrow> (Some e, s5)
                       | (None, s5) \<Rightarrow>
                           (None, store component (set_outputs [] (heap s5 component)) s5)))
         else (None, s1))"

text \<open>
  \<^verbatim>\<open>propagate\<close>. The callback of \<^verbatim>\<open>this.gates.forEach\<close> evaluates one gate and sets
  the flag \<^verbatim>\<open>changed\<close> when the gate's cached output differs from what it was.
\<close>

fun evaluate_gates :: "addr list \<Rightarrow> bool \<Rightarrow> state \<Rightarrow> exn option \<times> bool \<times> state" where
  "evaluate_gates [] changed s = (None, changed, s)"
| "evaluate_gates (gate # rest) changed s =
     (let oldOutput = getOutput (heap s gate)
      in case evaluate gate s of
           (Some e, s') \<Rightarrow> (Some e, changed, s')
         | (None, s') \<Rightarrow>
             evaluate_gates rest (if getOutput (heap s' gate) \<noteq> oldOutput then True else changed) s')"

text \<open>\<^verbatim>\<open>outputPoint.update()\<close> as a call: only an \<^verbatim>\<open>OutputPoint\<close> has the method.\<close>

definition call_update :: "addr \<Rightarrow> state \<Rightarrow> outcome" where
  "call_update outputPoint s =
     (if is_OutputPoint (heap s outputPoint) then (None, update outputPoint s)
      else (Some TypeError, s))"

definition update_outputPoints :: "state \<Rightarrow> outcome" where
  "update_outputPoints s = forEach call_update (outputPoints s) s"

text \<open>
  One iteration of the \<^verbatim>\<open>for\<close> loop up to its \<^verbatim>\<open>break\<close> test: the gates, then the
  output points. The result carries the flag \<^verbatim>\<open>changed\<close>.
\<close>

definition iteration :: "state \<Rightarrow> exn option \<times> bool \<times> state" where
  "iteration s =
     (case evaluate_gates (gates s) False s of
        (Some e, changed, s1) \<Rightarrow> (Some e, changed, s1)
      | (None, changed, s1) \<Rightarrow>
          (case update_outputPoints s1 of
             (Some e, s2) \<Rightarrow> (Some e, changed, s2)
           | (None, s2) \<Rightarrow> (None, changed, s2)))"

function propagate_loop :: "nat \<Rightarrow> nat \<Rightarrow> state \<Rightarrow> outcome" where
  "propagate_loop i maxIterations s =
     (if i < maxIterations then
        (case iteration s of
           (Some e, changed, s') \<Rightarrow> (Some e, s')
         | (None, changed, s') \<Rightarrow>
             if \<not> changed \<and> i > 0 then (None, s')
             else propagate_loop (i + 1) maxIterations s')
      else (None, s))"
  by pat_completeness auto
termination
  by (relation "measure (\<lambda>(i, maxIterations, s). maxIterations - i)") auto

declare propagate_loop.simps [simp del]

definition propagate :: "state \<Rightarrow> outcome" where
  "propagate s =
     (let maxIterations = length (gates s) + 1
      in case propagate_loop 0 maxIterations s of
           (Some e, s') \<Rightarrow> (Some e, s')
         | (None, s') \<Rightarrow> update_outputPoints s')"

text \<open>
  \<^verbatim>\<open>connect\<close> and \<^verbatim>\<open>disconnect\<close>; \<open>n\<close> is the room on the call stack for the linking
  methods. The parameter \<^verbatim>\<open>targetInputPin\<close> is never read.
\<close>

definition connect :: "nat \<Rightarrow> addr \<Rightarrow> addr \<Rightarrow> state \<Rightarrow> outcome" where
  "connect n sourceComponent targetComponent s =
     (if sourceComponent \<notin> set (components s) \<or> targetComponent \<notin> set (components s)
      then (None, log_msg Error_connect_not_added s)
      else
        case (if responds_to (heap s sourceComponent) AddOutput
                 \<and> responds_to (heap s targetComponent) AddInput
              then invoke n AddOutput sourceComponent targetComponent s
              else (None, log_msg Error_connect_invalid s)) of
          (Some e, s') \<Rightarrow> (Some e, s')
        | (None, s') \<Rightarrow> propagate s')"

definition disconnect :: "nat \<Rightarrow> addr \<Rightarrow> addr \<Rightarrow> state \<Rightarrow> outcome" where
  "disconnect n sourceComponent targetComponent s =
     (case (if responds_to (heap s sourceComponent) RemoveOutput
            then invoke n RemoveOutput sourceComponent targetComponent s
            else (None, log_msg Error_disconnect s)) of
        (Some e, s') \<Rightarrow> (Some e, s')
      | (None, s') \<Rightarrow> propagate s')"

text \<open>
  \<^verbatim>\<open>getCircuitState\<close>. \<^verbatim>\<open>g.inputs.map\<close> needs the field \<^verbatim>\<open>inputs\<close> and
  \<^verbatim>\<open>op.getValue()\<close> exists on an \<^verbatim>\<open>OutputPoint\<close> only. The callback that removes
  duplicate connections names \<^verbatim>\<open>comp\<close>, which is the parameter of another callback
  and not in scope: evaluating it throws a \<^verbatim>\<open>ReferenceError\<close>, and it is evaluated
  when an earlier connection is the reverse of the one looked for.
\<close>

record snapshot =
  snap_inputs :: "(string \<times> signal) list"
  snap_gates :: "(string \<times> signal \<times> string list) list"
  snap_outputs :: "(string \<times> signal) list"
  snap_connections :: "(string \<times> string) list"

definition connections_of :: "state \<Rightarrow> addr \<Rightarrow> (string \<times> string) list" where
  "connections_of s component =
     (case outputs_of (heap s component) of
        Some outs \<Rightarrow> map (\<lambda>out_conn. (name_of (heap s component), name_of (heap s out_conn))) outs
      | None \<Rightarrow> [])
     @ (if is_OutputPoint (heap s component) then
          (case input_of (heap s component) of
             Some src \<Rightarrow> [(name_of (heap s src), name_of (heap s component))]
           | None \<Rightarrow> [])
        else [])"

text \<open>
  \<^verbatim>\<open>self.findIndex(c => ...)\<close> from position \<open>k\<close> on: the index of the first connection
  equal to \<open>conn\<close>, unless the scan meets the reverse of \<open>conn\<close> first.
\<close>

fun findIndex :: "(string \<times> string) \<Rightarrow> (string \<times> string) list \<Rightarrow> nat \<Rightarrow> exn + nat option" where
  "findIndex conn [] k = Inr None"
| "findIndex conn (c # cs) k =
     (if fst c = fst conn \<and> snd c = snd conn then Inr (Some k)
      else if snd c = fst conn \<and> fst c = snd conn then Inl ReferenceError
      else findIndex conn cs (k + 1))"

fun dedup :: "(string \<times> string) list \<Rightarrow> (string \<times> string) list \<Rightarrow> nat
    \<Rightarrow> exn + (string \<times> string) list" where
  "dedup self [] index = Inr []"
| "dedup self (conn # rest) index =
     (case findIndex conn self 0 of
        Inl e \<Rightarrow> Inl e
      | Inr found \<Rightarrow>
          (case dedup self rest (index + 1) of
             Inl e \<Rightarrow> Inl e
           | Inr kept \<Rightarrow> Inr (if found = Some index then conn # kept else kept)))"

definition getCircuitState :: "state \<Rightarrow> exn + snapshot" where
  "getCircuitState s =
     (if list_ex (\<lambda>g. inputs_of (heap s g) = None) (gates s) then Inl TypeError
      else if list_ex (\<lambda>op. \<not> is_OutputPoint (heap s op)) (outputPoints s) then Inl TypeError
      else
        let conns = concat (map (connections_of s) (components s))
        in case dedup conns conns 0 of
             Inl e \<Rightarrow> Inl e
           | Inr kept \<Rightarrow>
               Inr \<lparr> snap_inputs =
                       map (\<lambda>ip. (name_of (heap s ip), getOutput (heap s ip))) (inputPoints s),
                     snap_gates =
                       map (\<lambda>g. (name_of (heap s g), getOutput (heap s g),
                                 map (\<lambda>i. name_of (heap s i))
                                   (case inputs_of (heap s g) of Some ins \<Rightarrow> ins | None \<Rightarrow> [])))
                         (gates s),
                     snap_outputs =
                       map (\<lambda>op. (name_of (heap s op), getOutput (heap s op))) (outputPoints s),
                     snap_connections = kept \<rparr>)"

section \<open>Example circuits\<close>

text \<open>
  Concrete states, used to run the model. Every address holds an object; the ones a
  circuit does not name hold a fresh input point.
\<close>

definition fresh_heap :: "addr \<Rightarrow> node" where
  "fresh_heap = (\<lambda>a. new_InputPoint [] LOW)"

text \<open>\<^verbatim>\<open>new Simulation()\<close> over a store.\<close>

definition new_Simulation :: "(addr \<Rightarrow> node) \<Rightarrow> state" where
  "new_Simulation h =
     \<lparr>heap = h, console = [], components = [], inputPoints = [], outputPoints = [],
      gates = []\<rparr>"

text \<open>
  An AND gate at address 2 fed by the input points at 0 and 1, which hold \<open>a\<close> and \<open>b\<close>;
  and the same gate with the first input alone.
\<close>

definition and_circuit :: "signal \<Rightarrow> signal \<Rightarrow> state" where
  "and_circuit a b =
     new_Simulation
       (fresh_heap(0 := InputPoint ''Input1'' a [2], 1 := InputPoint ''Input2'' b [2],
                   2 := Gate AndGate ''TestAndGate'' [0, 1] LOW [] 2))"

definition and_circuit_one_input :: "signal \<Rightarrow> state" where
  "and_circuit_one_input a =
     new_Simulation
       (fresh_heap(0 := InputPoint ''Input1'' a [2],
                   2 := Gate AndGate ''TestAndGate'' [0] HIGH [] 2))"

text \<open>A NOT gate at address 1 fed by the input point at 0; and one with no input.\<close>

definition not_circuit :: "signal \<Rightarrow> state" where
  "not_circuit a =
     new_Simulation
       (fresh_heap(0 := InputPoint ''InputNot'' a [1],
                   1 := Gate NotGate ''TestNotGate'' [0] LOW [] 1))"

definition not_circuit_unconnected :: state where
  "not_circuit_unconnected =
     new_Simulation (fresh_heap(1 := Gate NotGate ''TestNotGate'' [] HIGH [] 1))"

text \<open>
  The circuit of the simulator's start-up (\<^verbatim>\<open>LogicSimulator.js\<close>): InputA at 0,
  InputB at 1, Not1 at 2, And1 at 3 and OutputX at 4, all fresh, registered in that order.
\<close>

definition circuit_heap :: "addr \<Rightarrow> node" where
  "circuit_heap =
     fresh_heap(0 := new_InputPoint ''InputA'' LOW, 1 := new_InputPoint ''InputB'' LOW,
                2 := new_NotGate ''Not1'', 3 := new_AndGate ''And1'',
                4 := new_OutputPoint ''OutputX'')"

definition registered :: state where
  "registered =
     addComponent 4 (addComponent 3 (addComponent 2 (addComponent 1 (addComponent 0
       (new_Simulation circuit_heap)))))"

text \<open>
  The scenario: InputA\<rightarrow>Not1, Not1\<rightarrow>And1, InputB\<rightarrow>And1, then And1\<rightarrow>OutputX, each by
  \<^verbatim>\<open>connect\<close> with room \<open>n\<close> on the stack; then the four rounds of setting inputs and
  propagating. A caller that catches an exception goes on from the state it left.
\<close>

definition wired_gates :: "nat \<Rightarrow> state" where
  "wired_gates n =
     snd (connect n 1 3 (snd (connect n 2 3 (snd (connect n 0 2 registered)))))"

definition wired :: "nat \<Rightarrow> outcome" where
  "wired n = connect n 3 4 (wired_gates n)"

definition scenario_1 :: "nat \<Rightarrow> outcome" where
  "scenario_1 n = propagate (snd (wired n))"

definition scenario_2 :: "nat \<Rightarrow> outcome" where
  "scenario_2 n = propagate (setValue 0 HIGH (snd (scenario_1 n)))"

definition scenario_3 :: "nat \<Rightarrow> outcome" where
  "scenario_3 n = propagate (setValue 1 HIGH (snd (scenario_2 n)))"

definition scenario_4 :: "nat \<Rightarrow> outcome" where
  "scenario_4 n = propagate (setValue 0 LOW (snd (scenario_3 n)))"

text \<open>
  An output point (at 2) whose slot holds the input point A (at 0), linked on both
  sides, and a second input point B (at 1); all three registered.
\<close>

definition occupied_sink :: state where
  "occupied_sink =
     \<lparr>heap = fresh_heap(0 := InputPoint ''A'' LOW [2], 1 := InputPoint ''B'' LOW [],
                        2 := OutputPoint ''Out'' (Some 0) LOW),
      console = [], components = [0, 1, 2], inputPoints = [0, 1], outputPoints = [2],
      gates = []\<rparr>"

definition replace_by_addInput :: "nat \<Rightarrow> outcome" where
  "replace_by_addInput n = invoke n AddInput 2 1 occupied_sink"

definition replace_by_connect :: "nat \<Rightarrow> outcome" where
  "replace_by_connect n = connect n 1 2 occupied_sink"

text \<open>
  An input point (at 0) that feeds two NOT gates (at 1 and 2), as two calls of
  \<^verbatim>\<open>connect\<close> leave it.
\<close>

definition fanout :: state where
  "fanout =
     \<lparr>heap = fresh_heap(0 := InputPoint ''InputA'' LOW [1, 2],
                        1 := Gate NotGate ''Not1'' [0] LOW [] 1,
                        2 := Gate NotGate ''Not2'' [0] LOW [] 1),
      console = [], components = [0, 1, 2], inputPoints = [0], outputPoints = [],
      gates = []\<rparr>"

definition fanout_removed :: "nat \<Rightarrow> outcome" where
  "fanout_removed n = removeComponent n 0 fanout"

text \<open>
  An output point (at 1) linked to the input point A (at 0) on both sides, whose cached
  value is LOW while A is HIGH: A was set after the last propagation.
\<close>

definition stale_sink :: state where
  "stale_sink =
     \<lparr>heap = fresh_heap(0 := InputPoint ''A'' HIGH [1], 1 := OutputPoint ''Out'' (Some 0) LOW),
      console = [], components = [0, 1], inputPoints = [0], outputPoints = [1],
      gates = []\<rparr>"

text \<open>
  The NOT\<rightarrow>AND circuit, linked on both sides, with And1 registered before Not1: the first
  pass evaluates And1 on the stale output of Not1.
\<close>

definition late_gate :: state where
  "late_gate =
     \<lparr>heap = fresh_heap(0 := InputPoint ''InputA'' LOW [2], 1 := InputPoint ''InputB'' HIGH [3],
                        2 := Gate NotGate ''Not1'' [0] LOW [3] 1,
                        3 := Gate AndGate ''And1'' [2, 1] LOW [4] 2,
                        4 := OutputPoint ''OutputX'' (Some 3) LOW),
      console = [], components = [0, 1, 2, 3, 4], inputPoints = [0, 1],
      outputPoints = [4], gates = [3, 2]\<rparr>"

text \<open>
  A NOT gate wired to itself, as \<^verbatim>\<open>connect(Not1, Not1)\<close> wires it, registered for
  evaluation together with an unconnected AND gate.
\<close>

definition oscillator :: state where
  "oscillator =
     \<lparr>heap = fresh_heap(0 := Gate NotGate ''Not1'' [0] LOW [0] 1,
                        1 := Gate AndGate ''And1'' [] LOW [] 2),
      console = [], components = [0, 1], inputPoints = [], outputPoints = [],
      gates = [0, 1]\<rparr>"

text \<open>
  Three output points in a row behind a HIGH input point: O1 reads O2, O2 reads O3 and O3
  reads A. The node methods build it: \<^verbatim>\<open>O3.addInput(A)\<close> (which links both sides and
  then throws), \<^verbatim>\<open>O2.addInput(O3)\<close> and \<^verbatim>\<open>O1.addInput(O2)\<close>.
\<close>

definition sink_chain :: state where
  "sink_chain =
     \<lparr>heap = fresh_heap(0 := InputPoint ''A'' HIGH [3], 1 := OutputPoint ''O1'' (Some 2) LOW,
                        2 := OutputPoint ''O2'' (Some 3) LOW,
                        3 := OutputPoint ''O3'' (Some 0) LOW),
      console = [], components = [0, 1, 2, 3], inputPoints = [0], outputPoints = [1, 2, 3],
      gates = []\<rparr>"

section \<open>Notions used in the statements\<close>

text \<open>The four arrays of the simulation, and the link fields of a node.\<close>

definition registry :: "state \<Rightarrow> addr list \<times> addr list \<times> addr list \<times> addr list" where
  "registry s = (components s, inputPoints s, outputPoints s, gates s)"

definition links :: "node \<Rightarrow> addr list option \<times> addr list option \<times> addr option" where
  "links nd = (inputs_of nd, outputs_of nd, input_of nd)"

text \<open>
  Two states have the same wiring when the registry and every node's link fields agree;
  cached values and the console may differ.
\<close>

definition same_wiring :: "state \<Rightarrow> state \<Rightarrow> bool" where
  "same_wiring s s' =
     (registry s' = registry s \<and> (\<forall>x. links (heap s' x) = links (heap s x)))"

text \<open>
  No duplicate entry in the \<^verbatim>\<open>inputs\<close> or \<^verbatim>\<open>outputs\<close> array of a node, and of any
  node of a state.
\<close>

definition node_distinct :: "node \<Rightarrow> bool" where
  "node_distinct nd =
     ((case inputs_of nd of Some ins \<Rightarrow> distinct ins | None \<Rightarrow> True)
      \<and> (case outputs_of nd of Some outs \<Rightarrow> distinct outs | None \<Rightarrow> True))"

definition distinct_links :: "state \<Rightarrow> bool" where
  "distinct_links s = (\<forall>a. node_distinct (heap s a))"

text \<open>
  \<open>a\<close> and \<open>b\<close> are linked on both sides: \<open>a\<close> lists \<open>b\<close> as an output, and \<open>b\<close> lists
  \<open>a\<close> among its inputs or holds it in its slot.
\<close>

definition linked :: "state \<Rightarrow> addr \<Rightarrow> addr \<Rightarrow> bool" where
  "linked s a b =
     ((case outputs_of (heap s a) of Some outs \<Rightarrow> b \<in> set outs | None \<Rightarrow> False)
      \<and> ((case inputs_of (heap s b) of Some ins \<Rightarrow> a \<in> set ins | None \<Rightarrow> False)
           \<or> input_of (heap s b) = Some a))"

text \<open>
  The public calls: those of the simulation, those of an input point, and the linking
  methods of the nodes (\<open>Send\<close>). \<open>run\<close> makes a sequence of calls, each with room \<open>n\<close>
  on the stack; a caller that catches an exception goes on from the state it left.
\<close>

datatype api_call =
    AddComponent addr
  | RemoveComponent addr
  | Connect addr addr
  | Disconnect addr addr
  | Propagate
  | SetValue addr signal
  | Toggle addr
  | Send selector addr addr

fun api :: "nat \<Rightarrow> api_call \<Rightarrow> state \<Rightarrow> outcome" where
  "api n (AddComponent c) s = (None, addComponent c s)"
| "api n (RemoveComponent c) s = removeComponent n c s"
| "api n (Connect a b) s = connect n a b s"
| "api n (Disconnect a b) s = disconnect n a b s"
| "api n Propagate s = propagate s"
| "api n (SetValue a v) s =
     (if is_InputPoint (heap s a) then (None, setValue a v s) else (Some TypeError, s))"
| "api n (Toggle a) s =
     (if is_InputPoint (heap s a) then (None, toggle a s) else (Some TypeError, s))"
| "api n (Send sel this arg) s = invoke n sel this arg s"

fun run :: "nat \<Rightarrow> api_call list \<Rightarrow> state \<Rightarrow> state" where
  "run n [] s = s"
| "run n (c # cs) s = run n cs (snd (api n c s))"

text \<open>
  The propagation as the specification words it. A pass is one \<open>iteration\<close>: every gate
  in registration order, then every output point. \<open>after_passes k\<close> is the result of the
  first \<open>k\<close> passes, with the flag of the last one; an exception ends the passes.
\<close>

fun after_passes :: "nat \<Rightarrow> state \<Rightarrow> exn option \<times> bool \<times> state" where
  "after_passes 0 s = (None, False, s)"
| "after_passes (Suc k) s =
     (case after_passes k s of
        (Some e, changed, s') \<Rightarrow> (Some e, changed, s')
      | (None, changed, s') \<Rightarrow> iteration s')"

text \<open>
  The number of passes made: the first pass from the second on that changed no gate
  output, and \<^verbatim>\<open>maxIterations\<close> (the number of registered gates plus one) when there
  is none. The propagation is that many passes and then one more refresh of the output
  points.
\<close>

definition pass_changed :: "nat \<Rightarrow> state \<Rightarrow> bool" where
  "pass_changed k s = fst (snd (after_passes k s))"

definition passes_run :: "state \<Rightarrow> nat" where
  "passes_run s =
     Min ({k \<in> {2..length (gates s) + 1}. \<not> pass_changed k s} \<union> {length (gates s) + 1})"

definition propagate_spec :: "state \<Rightarrow> outcome" where
  "propagate_spec s =
     (case after_passes (passes_run s) s of
        (Some e, changed, s') \<Rightarrow> (Some e, s')
      | (None, changed, s') \<Rightarrow> update_outputPoints s')"

text \<open>
  The circuits on which a propagation settles. Every registered gate is of a class that
  can be evaluated and reads no output point; every registered output point is one, and
  its slot is empty or holds a node that is not an output point. This is what
  \<^verbatim>\<open>connect\<close> admits: a source must have \<^verbatim>\<open>addOutput\<close>.
\<close>

definition circuit_ok :: "state \<Rightarrow> bool" where
  "circuit_ok s =
     ((\<forall>g \<in> set (gates s).
         case heap s g of
           Gate c nm ins ov outs mx \<Rightarrow>
             c \<noteq> LogicGate \<and> (\<forall>i \<in> set ins. \<not> is_OutputPoint (heap s i))
         | _ \<Rightarrow> False)
      \<and> (\<forall>out \<in> set (outputPoints s).
            is_OutputPoint (heap s out)
            \<and> (case input_of (heap s out) of
                  Some src \<Rightarrow> \<not> is_OutputPoint (heap s src)
                | None \<Rightarrow> True)))"

text \<open>
  No feedback: the registered gates can be given levels below their number so that a
  registered gate that feeds another has the lower level.
\<close>

definition levelled :: "state \<Rightarrow> (addr \<Rightarrow> nat) \<Rightarrow> bool" where
  "levelled s level =
     (\<forall>g \<in> set (gates s).
        level g < length (gates s)
        \<and> (\<forall>i \<in> set (case inputs_of (heap s g) of Some ins \<Rightarrow> ins | None \<Rightarrow> []).
              i \<in> set (gates s) \<longrightarrow> level i < level g))"

text \<open>
  During a propagation only cached values change. A state is then the state it started
  from with other values: \<open>with_values s v\<close> gives every node of \<open>s\<close> the cached value
  \<open>v\<close> assigns to it. What a gate evaluates to is a function of its class, of
  \<^verbatim>\<open>maxInputs\<close> and of the values of its inputs (\<open>gate_fn\<close>, read off the three
  \<^verbatim>\<open>evaluate\<close> methods); \<open>eval_all\<close>, \<open>changes\<close> and \<open>refresh_all\<close> are the two
  \<^verbatim>\<open>forEach\<close> loops of a pass on values.
\<close>

type_synonym valuation = "addr \<Rightarrow> signal"

definition with_values :: "state \<Rightarrow> valuation \<Rightarrow> state" where
  "with_values s v = s\<lparr>heap := (\<lambda>a. set_value (v a) (heap s a))\<rparr>"

definition nth_low :: "signal list \<Rightarrow> nat \<Rightarrow> signal" where
  "nth_low vs i = (if i < length vs then vs ! i else LOW)"

fun gate_fn :: "gate_class \<Rightarrow> int \<Rightarrow> signal list \<Rightarrow> signal" where
  "gate_fn AndGate mx vs =
     (if int (length vs) < mx then LOW
      else if nth_low vs 0 = HIGH \<and> nth_low vs 1 = HIGH then HIGH else LOW)"
| "gate_fn NotGate mx vs =
     (if length vs < 1 then LOW else if nth_low vs 0 = HIGH then LOW else HIGH)"
| "gate_fn NAndGate mx vs =
     (if length vs = 0 then LOW
      else if list_ex (\<lambda>i. nth_low vs i = LOW) [0..<length vs] then LOW else HIGH)"
| "gate_fn LogicGate mx vs = LOW"

definition target :: "state \<Rightarrow> valuation \<Rightarrow> addr \<Rightarrow> signal" where
  "target s v g =
     (case heap s g of
        Gate c nm ins ov outs mx \<Rightarrow> gate_fn c mx (map v ins)
      | _ \<Rightarrow> v g)"

definition source_value :: "state \<Rightarrow> valuation \<Rightarrow> addr \<Rightarrow> signal" where
  "source_value s v out = (case input_of (heap s out) of Some src \<Rightarrow> v src | None \<Rightarrow> LOW)"

fun eval_all :: "state \<Rightarrow> addr list \<Rightarrow> valuation \<Rightarrow> valuation" where
  "eval_all s [] v = v"
| "eval_all s (g # gs) v = eval_all s gs (v(g := target s v g))"

fun changes :: "state \<Rightarrow> addr list \<Rightarrow> valuation \<Rightarrow> bool" where
  "changes s [] v = False"
| "changes s (g # gs) v = (target s v g \<noteq> v g \<or> changes s gs (v(g := target s v g)))"

fun refresh_all :: "state \<Rightarrow> addr list \<Rightarrow> valuation \<Rightarrow> valuation" where
  "refresh_all s [] v = v"
| "refresh_all s (out # outs) v = refresh_all s outs (v(out := source_value s v out))"

text \<open>Notions of the convergence proof.\<close>

definition gate_ok :: "state \<Rightarrow> addr \<Rightarrow> bool" where
  "gate_ok s g =
     (case heap s g of Gate c nm ins ov outs mx \<Rightarrow> c \<noteq> LogicGate | _ \<Rightarrow> False)"

definition settled_upto :: "state \<Rightarrow> (addr \<Rightarrow> nat) \<Rightarrow> nat \<Rightarrow> addr set \<Rightarrow> valuation \<Rightarrow> bool" where
  "settled_upto s level k done v =
     (\<forall>h \<in> set (gates s). level h < k \<or> (level h = k \<and> h \<in> done) \<longrightarrow> v h = target s v h)"

definition all_settled :: "state \<Rightarrow> valuation \<Rightarrow> bool" where
  "all_settled s v = (\<forall>g \<in> set (gates s). v g = target s v g)"

definition all_mirrored :: "state \<Rightarrow> valuation \<Rightarrow> bool" where
  "all_mirrored s v = (\<forall>out \<in> set (outputPoints s). v out = source_value s v out)"

section \<open>The gates' truth tables\<close>

text \<open>
  C5. An AND gate (class \<^verbatim>\<open>AndGate\<close>, \<^verbatim>\<open>maxInputs\<close> 2) with two connected inputs whose
  cached outputs are \<open>a\<close> and \<open>b\<close> evaluates to HIGH if and only if both are HIGH, and to
  LOW otherwise; with fewer than two connected inputs it evaluates to LOW whatever the
  connected input's value is.
\<close>

theorem AndGate_truth_table:
  assumes "heap s g = Gate AndGate nm ins ov outs 2"
  shows "fst (evaluate g s) = None
    \<and> (ins = [ia, ib] \<longrightarrow>
         (output_at (snd (evaluate g s)) g = HIGH
            \<longleftrightarrow> output_at s ia = HIGH \<and> output_at s ib = HIGH)
       \<and> (output_at (snd (evaluate g s)) g = LOW
            \<longleftrightarrow> \<not> (output_at s ia = HIGH \<and> output_at s ib = HIGH)))
    \<and> (length ins < 2 \<longrightarrow> output_at (snd (evaluate g s)) g = LOW)"
  using assms
  by (simp add: evaluate_def AndGate_evaluate_def output_at_def store_def
      getInputValue_def HIGH_def LOW_def)

theorem AndGate_truth_table_witness:
  "output_at (snd (evaluate 2 (and_circuit HIGH HIGH))) 2 = HIGH
   \<and> output_at (snd (evaluate 2 (and_circuit HIGH LOW))) 2 = LOW
   \<and> output_at (snd (evaluate 2 (and_circuit LOW HIGH))) 2 = LOW
   \<and> output_at (snd (evaluate 2 (and_circuit LOW LOW))) 2 = LOW
   \<and> output_at (snd (evaluate 2 (and_circuit_one_input HIGH))) 2 = LOW"
proof -
  have two: "heap (and_circuit a b) 2 = Gate AndGate ''TestAndGate'' [0, 1] LOW [] 2" for a b
    by (simp add: and_circuit_def new_Simulation_def)
  have one: "heap (and_circuit_one_input a) 2 = Gate AndGate ''TestAndGate'' [0] HIGH [] 2"
    for a
    by (simp add: and_circuit_one_input_def new_Simulation_def)
  have vals: "output_at (and_circuit a b) 0 = a" "output_at (and_circuit a b) (Suc 0) = b"
    for a b
    by (simp_all add: and_circuit_def new_Simulation_def output_at_def)
  show ?thesis
    using AndGate_truth_table [OF two [of HIGH HIGH], where ia = 0 and ib = 1]
      AndGate_truth_table [OF two [of HIGH LOW], where ia = 0 and ib = 1]
      AndGate_truth_table [OF two [of LOW HIGH], where ia = 0 and ib = 1]
      AndGate_truth_table [OF two [of LOW LOW], where ia = 0 and ib = 1]
      AndGate_truth_table [OF one [of HIGH], where ia = 0 and ib = 1]
    by (simp add: vals HIGH_def LOW_def)
qed

text \<open>
  C6. A NOT gate with one connected input whose cached output \<open>a\<close> is LOW or HIGH
  evaluates to HIGH if and only if \<open>a\<close> is LOW, and to LOW if and only if \<open>a\<close> is HIGH;
  with no connected input it evaluates to LOW.
\<close>

theorem NotGate_truth_table:
  assumes "heap s g = Gate NotGate nm ins ov outs mx"
  shows "fst (evaluate g s) = None
    \<and> (ins = [i] \<and> (output_at s i = LOW \<or> output_at s i = HIGH) \<longrightarrow>
         (output_at (snd (evaluate g s)) g = HIGH \<longleftrightarrow> output_at s i = LOW)
       \<and> (output_at (snd (evaluate g s)) g = LOW \<longleftrightarrow> output_at s i = HIGH))
    \<and> (ins = [] \<longrightarrow> output_at (snd (evaluate g s)) g = LOW)"
  using assms
  by (auto simp add: evaluate_def NotGate_evaluate_def output_at_def store_def
      getInputValue_def HIGH_def LOW_def)

theorem NotGate_truth_table_witness:
  "output_at (snd (evaluate 1 (not_circuit LOW))) 1 = HIGH
   \<and> output_at (snd (evaluate 1 (not_circuit HIGH))) 1 = LOW
   \<and> output_at (snd (evaluate 1 not_circuit_unconnected)) 1 = LOW"
proof -
  have conn: "heap (not_circuit a) 1 = Gate NotGate ''TestNotGate'' [0] LOW [] 1" for a
    by (simp add: not_circuit_def new_Simulation_def)
  have unconn: "heap not_circuit_unconnected 1 = Gate NotGate ''TestNotGate'' [] HIGH [] 1"
    by (simp add: not_circuit_unconnected_def new_Simulation_def)
  have val: "output_at (not_circuit a) 0 = a" for a
    by (simp add: not_circuit_def new_Simulation_def output_at_def)
  show ?thesis
    using NotGate_truth_table [OF conn [of LOW], where i = 0]
      NotGate_truth_table [OF conn [of HIGH], where i = 0]
      NotGate_truth_table [OF unconn, where i = 0]
    by (simp add: val HIGH_def LOW_def)
qed

section \<open>Registration\<close>

text \<open>
  C2. The claim is that \<^verbatim>\<open>addComponent\<close> inserts a node that is not yet present and
  classifies it: an input point into \<^verbatim>\<open>inputPoints\<close>, an output point into
  \<^verbatim>\<open>outputPoints\<close>, and a gate into \<^verbatim>\<open>gates\<close>, so that \<^verbatim>\<open>propagate\<close> evaluates it.
  The code does the first two, and never the third: the branch that would push a gate is
  guarded by \<^verbatim>\<open>component instanceof Array\<close>, so \<^verbatim>\<open>addComponent\<close> never changes
  \<^verbatim>\<open>gates\<close>, whatever the component is.
\<close>

theorem addComponent_leaves_gates:
  "gates (addComponent component s) = gates s
   \<and> components (addComponent component s) =
       (if component \<in> set (components s) then components s
        else components s @ [component])
   \<and> inputPoints (addComponent component s) =
       (if component \<notin> set (components s) \<and> is_InputPoint (heap s component)
        then inputPoints s @ [component] else inputPoints s)
   \<and> outputPoints (addComponent component s) =
       (if component \<notin> set (components s) \<and> is_OutputPoint (heap s component)
        then outputPoints s @ [component] else outputPoints s)"
  by (cases "heap s component") (simp_all add: addComponent_def instanceof_Array_def Let_def)

section \<open>Evaluating concrete circuits\<close>

lemmas model_defs =
  connect_def method_body_def addOutput_def LogicGate_addInput_def OutputPoint_addInput_def
  removeOutput_def LogicGate_removeInput_def OutputPoint_removeInput_def store_def
  log_msg_def propagate_def update_outputPoints_def call_update_def update_def
  iteration_def new_InputPoint_def new_OutputPoint_def new_AndGate_def new_NotGate_def
  new_Simulation_def addComponent_def instanceof_Array_def has_evaluate_def Let_def
  setValue_def propagate_loop.simps

lemma registered_eq:
  "registered =
     \<lparr>heap = circuit_heap, console = [], components = [0, 1, 2, 3, 4],
      inputPoints = [0, 1], outputPoints = [4], gates = []\<rparr>"
  by (simp add: registered_def circuit_heap_def model_defs)

lemma wired_gates_eq:
  "wired_gates (Suc (Suc (Suc n))) =
     \<lparr>heap = fresh_heap(0 := InputPoint ''InputA'' LOW [2], 1 := InputPoint ''InputB'' LOW [3],
                        2 := Gate NotGate ''Not1'' [0] LOW [3] 1,
                        3 := Gate AndGate ''And1'' [2, 1] LOW [] 2,
                        4 := OutputPoint ''OutputX'' None LOW),
      console = [], components = [0, 1, 2, 3, 4], inputPoints = [0, 1],
      outputPoints = [4], gates = []\<rparr>"
  by (simp add: wired_gates_def registered_eq circuit_heap_def model_defs fun_eq_iff)

lemma wired_eq:
  "wired (Suc (Suc (Suc n))) =
     (Some TypeError,
      \<lparr>heap = fresh_heap(0 := InputPoint ''InputA'' LOW [2], 1 := InputPoint ''InputB'' LOW [3],
                         2 := Gate NotGate ''Not1'' [0] LOW [3] 1,
                         3 := Gate AndGate ''And1'' [2, 1] LOW [4] 2,
                         4 := OutputPoint ''OutputX'' None LOW),
       console = [], components = [0, 1, 2, 3, 4], inputPoints = [0, 1],
       outputPoints = [4], gates = []\<rparr>)"
  by (simp add: wired_def wired_gates_eq model_defs fun_eq_iff)

lemma scenario_1_eq:
  "scenario_1 (Suc (Suc (Suc n))) = (None, snd (wired (Suc (Suc (Suc n)))))"
  by (simp add: scenario_1_def wired_eq model_defs fun_eq_iff LOW_def)

lemma scenario_2_eq:
  "scenario_2 (Suc (Suc (Suc n))) =
     (None,
      \<lparr>heap = fresh_heap(0 := InputPoint ''InputA'' HIGH [2], 1 := InputPoint ''InputB'' LOW [3],
                         2 := Gate NotGate ''Not1'' [0] LOW [3] 1,
                         3 := Gate AndGate ''And1'' [2, 1] LOW [4] 2,
                         4 := OutputPoint ''OutputX'' None LOW),
       console = [], components = [0, 1, 2, 3, 4], inputPoints = [0, 1],
       outputPoints = [4], gates = []\<rparr>)"
  by (simp add: scenario_2_def scenario_1_eq wired_eq model_defs fun_eq_iff)

lemma scenario_3_eq:
  "scenario_3 (Suc (Suc (Suc n))) =
     (None,
      \<lparr>heap = fresh_heap(0 := InputPoint ''InputA'' HIGH [2], 1 := InputPoint ''InputB'' HIGH [3],
                         2 := Gate NotGate ''Not1'' [0] LOW [3] 1,
                         3 := Gate AndGate ''And1'' [2, 1] LOW [4] 2,
                         4 := OutputPoint ''OutputX'' None LOW),
       console = [], components = [0, 1, 2, 3, 4], inputPoints = [0, 1],
       outputPoints = [4], gates = []\<rparr>)"
  by (simp add: scenario_3_def scenario_2_eq model_defs fun_eq_iff)

lemma scenario_4_eq:
  "scenario_4 (Suc (Suc (Suc n))) =
     (None,
      \<lparr>heap = fresh_heap(0 := InputPoint ''InputA'' LOW [2], 1 := InputPoint ''InputB'' HIGH [3],
                         2 := Gate NotGate ''Not1'' [0] LOW [3] 1,
                         3 := Gate AndGate ''And1'' [2, 1] LOW [4] 2,
                         4 := OutputPoint ''OutputX'' None LOW),
       console = [], components = [0, 1, 2, 3, 4], inputPoints = [0, 1],
       outputPoints = [4], gates = []\<rparr>)"
  by (simp add: scenario_4_def scenario_3_eq model_defs fun_eq_iff)

text \<open>
  C1. The claim is that the scenario ends with Not1 at HIGH and OutputX reading HIGH.
  On the code, with any room of three frames or more on the stack: the three connections
  between inputs and gates succeed, and \<^verbatim>\<open>connect(And1, OutputX)\<close> throws a
  \<^verbatim>\<open>TypeError\<close> (\<^verbatim>\<open>addOutput\<close> reads \<^verbatim>\<open>destination.inputs\<close>, a field an output point
  does not have), leaving the slot of OutputX empty. No gate is registered for
  evaluation either. If the caller catches the exception and completes the scenario, each
  \<^verbatim>\<open>propagate\<close> returns normally and at the end Not1 is LOW and OutputX reads LOW.
\<close>

theorem scenario_not_and:
  "fst (wired (Suc (Suc (Suc n)))) = Some TypeError
   \<and> input_of (heap (snd (wired (Suc (Suc (Suc n))))) 4) = None
   \<and> gates (snd (wired (Suc (Suc (Suc n))))) = []
   \<and> fst (scenario_4 (Suc (Suc (Suc n)))) = None
   \<and> output_at (snd (scenario_4 (Suc (Suc (Suc n))))) 0 = LOW
   \<and> output_at (snd (scenario_4 (Suc (Suc (Suc n))))) 1 = HIGH
   \<and> output_at (snd (scenario_4 (Suc (Suc (Suc n))))) 2 = LOW
   \<and> output_at (snd (scenario_4 (Suc (Suc (Suc n))))) 4 = LOW"
  by (simp add: wired_eq scenario_4_eq output_at_def)

section \<open>Unlinking never returns\<close>

text \<open>
  \<^verbatim>\<open>removeOutput\<close> calls the destination's \<^verbatim>\<open>removeInput\<close>, which calls the source's
  \<^verbatim>\<open>removeOutput\<close> again, and neither looks whether the link is still there: between
  a source and a gate the two calls alternate until the stack is exhausted, whatever its
  size. Nothing but the two objects is touched on the way.
\<close>

lemma responds_to_store_links [simp]:
  "responds_to (heap (store a (set_outputs xs (heap s a)) s) b) sel = responds_to (heap s b) sel"
  "responds_to (heap (store a (set_inputs xs (heap s a)) s) b) sel = responds_to (heap s b) sel"
  by (cases "heap s a"; simp add: store_def)+

lemma is_Gate_store_links [simp]:
  "is_Gate (heap (store a (set_outputs xs (heap s a)) s) b) = is_Gate (heap s b)"
  "is_Gate (heap (store a (set_inputs xs (heap s a)) s) b) = is_Gate (heap s b)"
  by (cases "heap s a"; simp add: store_def)+

lemma invoke_RemoveInput_Gate:
  "is_Gate (heap s g) \<Longrightarrow> responds_to (heap s a) RemoveOutput \<Longrightarrow>
   invoke (Suc n) RemoveInput g a s =
     invoke n RemoveOutput a g
       (store g (set_inputs (filter (\<lambda>i. i \<noteq> a) (the (inputs_of (heap s g)))) (heap s g)) s)"
  by (cases "heap s g"; cases "heap s a")
    (auto simp add: method_body_def LogicGate_removeInput_def Let_def store_def)

lemma invoke_RemoveOutput_to_Gate:
  "is_Gate (heap s g) \<Longrightarrow> responds_to (heap s a) RemoveOutput \<Longrightarrow>
   invoke (Suc n) RemoveOutput a g s =
     invoke n RemoveInput g a
       (store a (set_outputs (filter (\<lambda>d. d \<noteq> g) (the (outputs_of (heap s a)))) (heap s a)) s)"
  by (cases "heap s g"; cases "heap s a")
    (auto simp add: method_body_def removeOutput_def Let_def store_def)

lemma unlink_gate_loop:
  "is_Gate (heap s g) \<Longrightarrow> responds_to (heap s a) RemoveOutput \<Longrightarrow>
     fst (invoke n RemoveInput g a s) = Some RangeError
   \<and> fst (invoke n RemoveOutput a g s) = Some RangeError"
proof (induction n arbitrary: s)
  case 0
  then show ?case by simp
next
  case (Suc n)
  show ?case
    using Suc.prems Suc.IH
    by (simp only: invoke_RemoveInput_Gate invoke_RemoveOutput_to_Gate) simp
qed

lemma unlink_gate_loop_frame:
  "is_Gate (heap s g) \<Longrightarrow> responds_to (heap s a) RemoveOutput \<Longrightarrow> x \<noteq> a \<Longrightarrow> x \<noteq> g \<Longrightarrow>
     heap (snd (invoke n RemoveInput g a s)) x = heap s x
   \<and> heap (snd (invoke n RemoveOutput a g s)) x = heap s x"
proof (induction n arbitrary: s)
  case 0
  then show ?case by simp
next
  case (Suc n)
  let ?s1 = "store g (set_inputs (filter (\<lambda>i. i \<noteq> a) (the (inputs_of (heap s g)))) (heap s g)) s"
  let ?s2 = "store a (set_outputs (filter (\<lambda>d. d \<noteq> g) (the (outputs_of (heap s a)))) (heap s a)) s"
  have "heap (snd (invoke n RemoveOutput a g ?s1)) x = heap ?s1 x"
    using Suc.prems by (intro Suc.IH [THEN conjunct2]) simp_all
  moreover have "heap (snd (invoke n RemoveInput g a ?s2)) x = heap ?s2 x"
    using Suc.prems by (intro Suc.IH [THEN conjunct1]) simp_all
  ultimately show ?case
    using Suc.prems
    by (simp add: invoke_RemoveInput_Gate invoke_RemoveOutput_to_Gate store_def
        del: invoke.simps)
qed

text \<open>
  The same between a source and an output point whose slot holds it: \<^verbatim>\<open>removeInput\<close>
  of the output point clears the slot only after the call to the source's
  \<^verbatim>\<open>removeOutput\<close> has returned, and that call comes back to \<^verbatim>\<open>removeInput\<close>.
\<close>

lemma unlink_sink_loop:
  "is_OutputPoint (heap s out) \<Longrightarrow> input_of (heap s out) = Some src \<Longrightarrow>
   responds_to (heap s src) RemoveOutput \<Longrightarrow>
     fst (invoke n RemoveInput out x s) = Some RangeError
   \<and> fst (invoke n RemoveOutput src out s) = Some RangeError
   \<and> heap (snd (invoke n RemoveInput out x s)) out = heap s out
   \<and> heap (snd (invoke n RemoveOutput src out s)) out = heap s out
   \<and> console (snd (invoke n RemoveInput out x s)) = console s
   \<and> console (snd (invoke n RemoveOutput src out s)) = console s"
proof (induction n arbitrary: s x)
  case 0
  then show ?case by simp
next
  case (Suc n)
  let ?s1 = "store src
      (set_outputs (filter (\<lambda>d. d \<noteq> out) (the (outputs_of (heap s src)))) (heap s src)) s"
  have neq: "src \<noteq> out"
    using Suc.prems by (cases "heap s out") auto
  have out1: "heap ?s1 out = heap s out"
    using neq by (simp add: store_def)
  have src1: "responds_to (heap ?s1 src) RemoveOutput"
    using Suc.prems by simp
  have con1: "console ?s1 = console s"
    by (simp add: store_def)
  have ih1: "fst (invoke n RemoveOutput src out s) = Some RangeError
      \<and> heap (snd (invoke n RemoveOutput src out s)) out = heap s out
      \<and> console (snd (invoke n RemoveOutput src out s)) = console s"
    using Suc.IH [OF Suc.prems] by simp
  have ih2: "fst (invoke n RemoveInput out src ?s1) = Some RangeError
      \<and> heap (snd (invoke n RemoveInput out src ?s1)) out = heap s out
      \<and> console (snd (invoke n RemoveInput out src ?s1)) = console s"
    using Suc.IH [of ?s1 src] Suc.prems src1 by (simp add: out1 con1)
  have a: "invoke (Suc n) RemoveInput out x s =
      (Some RangeError, snd (invoke n RemoveOutput src out s))"
    using Suc.prems ih1
    by (cases "heap s out"; cases "invoke n RemoveOutput src out s")
      (auto simp add: method_body_def OutputPoint_removeInput_def)
  have b: "invoke (Suc n) RemoveOutput src out s = invoke n RemoveInput out src ?s1"
    using Suc.prems
    by (cases "heap s out"; cases "heap s src")
      (auto simp add: method_body_def removeOutput_def Let_def store_def)
  show ?case
    unfolding a b using ih1 ih2 by simp
qed

section \<open>The linking methods leave the registry alone\<close>

lemma registry_store [simp]: "registry (store a nd s) = registry s"
  by (simp add: registry_def store_def)

lemma registry_log_msg [simp]: "registry (log_msg m s) = registry s"
  by (simp add: registry_def log_msg_def)

lemma registry_update [simp]: "registry (update a s) = registry s"
  by (simp add: update_def split: option.splits)

lemma registry_method_body:
  assumes call: "\<And>sel a b t e t'. call sel a b t = (e, t') \<Longrightarrow> registry t' = registry t"
    and body: "method_body call sel this arg s = (e, s')"
  shows "registry s' = registry s"
proof -
  have 1: "addOutput call this arg s = (e, s') \<Longrightarrow> registry s' = registry s"
    by (auto simp add: addOutput_def Let_def split: option.splits if_splits dest!: call)
  have 2: "removeOutput call this arg s = (e, s') \<Longrightarrow> registry s' = registry s"
    by (auto simp add: removeOutput_def Let_def split: option.splits if_splits dest!: call)
  have 3: "LogicGate_addInput call this arg s = (e, s') \<Longrightarrow> registry s' = registry s"
    by (auto simp add: LogicGate_addInput_def Let_def split: node.splits if_splits dest!: call)
  have 4: "LogicGate_removeInput call this arg s = (e, s') \<Longrightarrow> registry s' = registry s"
    by (auto simp add: LogicGate_removeInput_def Let_def split: node.splits if_splits
        dest!: call)
  have 5: "OutputPoint_removeInput call this arg s = (e, s') \<Longrightarrow> registry s' = registry s"
    by (auto simp add: OutputPoint_removeInput_def Let_def
        split: option.splits if_splits prod.splits dest!: call)
  have 6: "OutputPoint_addInput call this arg s = (e, s') \<Longrightarrow> registry s' = registry s"
    by (auto simp add: OutputPoint_addInput_def Let_def
        split: option.splits if_splits prod.splits dest!: call)
  show ?thesis
    using body 1 2 3 4 5 6
    by (auto simp add: method_body_def split: node.splits selector.splits)
qed

lemma registry_invoke: "invoke n sel this arg s = (e, s') \<Longrightarrow> registry s' = registry s"
proof (induction n arbitrary: sel this arg s e s')
  case 0
  then show ?case by simp
next
  case (Suc n)
  from Suc.prems have "method_body (invoke n) sel this arg s = (e, s')" by simp
  then show ?case
    by (rule registry_method_body [rotated]) (rule Suc.IH)
qed

lemma registry_invoke_snd [simp]: "registry (snd (invoke n sel this arg s)) = registry s"
  by (cases "invoke n sel this arg s") (simp add: registry_invoke)

section \<open>Replacing the source of an output point\<close>

text \<open>
  C7. The claim is that connecting a source to an output point whose slot is occupied
  warns and replaces the old source. On the code, with the slot of Out holding A:
  \<^verbatim>\<open>Out.addInput(B)\<close> warns, then calls \<^verbatim>\<open>A.removeOutput(Out)\<close>, which never returns:
  the call ends in a \<^verbatim>\<open>RangeError\<close> for every size of the stack and the slot still
  holds A. \<^verbatim>\<open>connect(B, Out)\<close> does not get that far: \<^verbatim>\<open>B.addOutput(Out)\<close> throws a
  \<^verbatim>\<open>TypeError\<close> before \<^verbatim>\<open>Out.addInput\<close> is called, nothing is printed and the slot
  still holds A.
\<close>

theorem occupied_sink_not_replaced:
  "fst (replace_by_addInput (Suc n)) = Some RangeError
   \<and> input_of (heap (snd (replace_by_addInput (Suc n))) 2) = Some 0
   \<and> console (snd (replace_by_addInput (Suc n))) = [Warn_replacing ''Out'' ''A'']
   \<and> fst (replace_by_connect (Suc n)) = Some TypeError
   \<and> input_of (heap (snd (replace_by_connect (Suc n))) 2) = Some 0
   \<and> console (snd (replace_by_connect (Suc n))) = []"
proof -
  let ?s0 = "log_msg (Warn_replacing ''Out'' ''A'') occupied_sink"
  have loop: "fst (invoke n RemoveOutput 0 2 ?s0) = Some RangeError
      \<and> heap (snd (invoke n RemoveOutput 0 2 ?s0)) 2 = heap ?s0 2
      \<and> console (snd (invoke n RemoveOutput 0 2 ?s0)) = console ?s0"
    using unlink_sink_loop [of ?s0 2 0 n]
    by (simp add: occupied_sink_def log_msg_def)
  have "replace_by_addInput (Suc n) = (Some RangeError, snd (invoke n RemoveOutput 0 2 ?s0))"
    using loop
    by (cases "invoke n RemoveOutput 0 2 ?s0")
      (auto simp add: replace_by_addInput_def method_body_def OutputPoint_addInput_def
        occupied_sink_def log_msg_def Let_def)
  then have 1: "fst (replace_by_addInput (Suc n)) = Some RangeError
      \<and> input_of (heap (snd (replace_by_addInput (Suc n))) 2) = Some 0
      \<and> console (snd (replace_by_addInput (Suc n))) = [Warn_replacing ''Out'' ''A'']"
    using loop by (simp add: occupied_sink_def log_msg_def)
  have 2: "fst (replace_by_connect (Suc n)) = Some TypeError
      \<and> input_of (heap (snd (replace_by_connect (Suc n))) 2) = Some 0
      \<and> console (snd (replace_by_connect (Suc n))) = []"
    by (simp add: replace_by_connect_def occupied_sink_def model_defs)
  show ?thesis
    using 1 2 by simp
qed

section \<open>Removing a component\<close>

text \<open>
  C8. The claim is that after \<^verbatim>\<open>removeComponent\<close> no registered node refers to the
  removed one. On the code, for the input point that feeds two gates:
  \<^verbatim>\<open>removeComponent\<close> unregisters it and calls \<^verbatim>\<open>removeInput\<close> of the first gate,
  which never returns; the call ends in a \<^verbatim>\<open>RangeError\<close> for every size of the stack,
  and the second gate, still registered, still lists the removed input point as its
  source.
\<close>

theorem removeComponent_leaves_reference:
  "fst (fanout_removed n) = Some RangeError
   \<and> components (snd (fanout_removed n)) = [1, 2]
   \<and> inputs_of (heap (snd (fanout_removed n)) 2) = Some [0]"
proof -
  let ?s2 = "fanout\<lparr>components := [1, 2], inputPoints := []\<rparr>"
  have g: "is_Gate (heap ?s2 1)" and a: "responds_to (heap ?s2 0) RemoveOutput"
    by (simp_all add: fanout_def)
  have thrown: "fst (invoke n RemoveInput 1 0 ?s2) = Some RangeError"
    using unlink_gate_loop [OF g a] by simp
  have frame: "heap (snd (invoke n RemoveInput 1 0 ?s2)) 2 = heap ?s2 2"
    using unlink_gate_loop_frame [OF g a, of 2] by simp
  have reg: "registry (snd (invoke n RemoveInput 1 0 ?s2)) = registry ?s2"
    by simp
  have "fanout_removed n = (Some RangeError, snd (invoke n RemoveInput 1 0 ?s2))"
    using thrown
    by (cases "invoke n RemoveInput 1 0 ?s2")
      (auto simp add: fanout_removed_def removeComponent_def fanout_def Let_def)
  then show ?thesis
    using frame reg by (simp add: registry_def fanout_def)
qed

section \<open>Propagation changes cached values only\<close>

lemma same_wiring_refl [simp]: "same_wiring s s"
  by (simp add: same_wiring_def)

lemma same_wiring_trans: "same_wiring s t \<Longrightarrow> same_wiring t u \<Longrightarrow> same_wiring s u"
  by (simp add: same_wiring_def)

lemma same_wiring_log_msg [simp]: "same_wiring s (log_msg m s)"
  by (simp add: same_wiring_def log_msg_def registry_def)

lemma same_wiring_set_value:
  "same_wiring s (store a (set_value v (heap s a)) s)"
  by (cases "heap s a") (simp_all add: same_wiring_def store_def links_def registry_def)

lemma same_wiring_update: "same_wiring s (update a s)"
  by (simp add: update_def same_wiring_set_value split: option.splits)

lemma console_update [simp]: "console (update a s) = console s"
  by (simp add: update_def store_def split: option.splits)

lemma evaluate_frame:
  "evaluate g s = (e, s') \<Longrightarrow> same_wiring s s' \<and> console s' = console s"
  by (auto simp add: evaluate_def AndGate_evaluate_def NotGate_evaluate_def
      NAndGate_evaluate_def same_wiring_def store_def links_def registry_def Let_def
      split: node.splits gate_class.splits if_splits)

lemma evaluate_gates_frame:
  "evaluate_gates gs c s = (e, c', s') \<Longrightarrow> same_wiring s s' \<and> console s' = console s"
proof (induction gs arbitrary: c s)
  case Nil
  then show ?case by simp
next
  case (Cons g gs)
  obtain e1 s1 where ev: "evaluate g s = (e1, s1)" by (cases "evaluate g s")
  note f1 = evaluate_frame [OF ev]
  show ?case
  proof (cases e1)
    case None
    with Cons.prems ev have "evaluate_gates gs
        (if getOutput (heap s1 g) \<noteq> getOutput (heap s g) then True else c) s1 = (e, c', s')"
      by (simp add: Let_def)
    from Cons.IH [OF this] f1 show ?thesis
      by (auto intro: same_wiring_trans)
  next
    case (Some x)
    with Cons.prems ev f1 show ?thesis by (simp add: Let_def)
  qed
qed

lemma update_outputPoints_frame_aux:
  "forEach call_update ops s = (e, s') \<Longrightarrow> same_wiring s s' \<and> console s' = console s"
proof (induction ops arbitrary: s)
  case Nil
  then show ?case by simp
next
  case (Cons a ops)
  show ?case
  proof (cases "is_OutputPoint (heap s a)")
    case True
    then have "call_update a s = (None, update a s)"
      by (simp add: call_update_def)
    with Cons.prems have "forEach call_update ops (update a s) = (e, s')"
      by simp
    from Cons.IH [OF this] same_wiring_update [of s a] show ?thesis
      by (auto intro: same_wiring_trans)
  next
    case False
    then have "call_update a s = (Some TypeError, s)"
      by (simp add: call_update_def)
    with Cons.prems show ?thesis by simp
  qed
qed

lemma update_outputPoints_frame:
  "update_outputPoints s = (e, s') \<Longrightarrow> same_wiring s s' \<and> console s' = console s"
  unfolding update_outputPoints_def by (rule update_outputPoints_frame_aux)

lemma iteration_frame:
  "iteration s = (e, c, s') \<Longrightarrow> same_wiring s s' \<and> console s' = console s"
  by (auto simp add: iteration_def split: prod.splits option.splits
      dest!: evaluate_gates_frame update_outputPoints_frame intro: same_wiring_trans)

lemma propagate_loop_frame:
  "propagate_loop i m s = (e, s') \<Longrightarrow> same_wiring s s' \<and> console s' = console s"
proof (induction i m s rule: propagate_loop.induct)
  case (1 i m s)
  show ?case
  proof (cases "i < m")
    case False
    with "1.prems" show ?thesis by (simp add: propagate_loop.simps [of i m s])
  next
    case True
    obtain e1 c1 s1 where it: "iteration s = (e1, c1, s1)" by (cases "iteration s")
    note f1 = iteration_frame [OF it]
    show ?thesis
    proof (cases "e1 = None \<and> \<not> (\<not> c1 \<and> i > 0)")
      case True
      with \<open>i < m\<close> it "1.prems" have "propagate_loop (i + 1) m s1 = (e, s')"
        by (auto simp add: propagate_loop.simps [of i m s] split: if_splits)
      from "1.IH" [OF \<open>i < m\<close> it [symmetric] _ refl _ this] True f1 show ?thesis
        by (auto intro: same_wiring_trans)
    next
      case False
      with \<open>i < m\<close> it "1.prems" f1 show ?thesis
        by (auto simp add: propagate_loop.simps [of i m s] split: if_splits option.splits)
    qed
  qed
qed

lemma propagate_frame:
  "propagate s = (e, s') \<Longrightarrow> same_wiring s s' \<and> console s' = console s"
  by (auto simp add: propagate_def Let_def split: prod.splits option.splits
      dest!: propagate_loop_frame update_outputPoints_frame intro: same_wiring_trans)

text \<open>
  C3, as amended. A \<^verbatim>\<open>connect\<close> call that fails validation (an endpoint is not
  registered, or the source has no \<^verbatim>\<open>addOutput\<close>, or the target has no
  \<^verbatim>\<open>addInput\<close>) prints one error and changes neither the registry nor any node's
  link fields. When an endpoint is not registered the call returns at once and the store
  is unchanged. When both are registered and a capability is missing, the call goes on
  to \<^verbatim>\<open>propagate()\<close>: it is the propagation of the state with the error printed, so
  cached gate outputs and output-point values are refreshed.
\<close>

theorem connect_rejected:
  assumes "a \<notin> set (components s) \<or> b \<notin> set (components s)
      \<or> \<not> responds_to (heap s a) AddOutput \<or> \<not> responds_to (heap s b) AddInput"
  shows "(\<exists>m. is_error m \<and> console (snd (connect n a b s)) = console s @ [m])
    \<and> same_wiring s (snd (connect n a b s))
    \<and> (a \<notin> set (components s) \<or> b \<notin> set (components s) \<longrightarrow>
         fst (connect n a b s) = None \<and> heap (snd (connect n a b s)) = heap s)
    \<and> (a \<in> set (components s) \<and> b \<in> set (components s) \<longrightarrow>
         connect n a b s = propagate (log_msg Error_connect_invalid s))"
proof (cases "a \<notin> set (components s) \<or> b \<notin> set (components s)")
  case True
  then have "connect n a b s = (None, log_msg Error_connect_not_added s)"
    by (auto simp add: connect_def)
  with True same_wiring_log_msg [of s Error_connect_not_added] show ?thesis
    by (auto simp add: log_msg_def)
next
  case False
  with assms have c: "connect n a b s = propagate (log_msg Error_connect_invalid s)"
    by (cases "propagate (log_msg Error_connect_invalid s)") (auto simp add: connect_def)
  obtain e s' where p: "propagate (log_msg Error_connect_invalid s) = (e, s')"
    by (cases "propagate (log_msg Error_connect_invalid s)")
  from propagate_frame [OF p] have "same_wiring s s'" "console s' = console s @ [Error_connect_invalid]"
    by (auto intro: same_wiring_trans [OF same_wiring_log_msg] simp add: log_msg_def)
  with False c p show ?thesis
    by auto
qed

text \<open>
  C3 as stated fails: in \<open>stale_sink\<close>, \<^verbatim>\<open>connect(Out, A)\<close> fails validation (an output
  point has no \<^verbatim>\<open>addOutput\<close>), and the propagation that follows the error changes the
  cached value of Out from LOW to HIGH.
\<close>

theorem connect_rejected_counterexample:
  "\<not> responds_to (heap stale_sink 1) AddOutput
   \<and> output_at stale_sink 1 = LOW
   \<and> output_at (snd (connect 1 1 0 stale_sink)) 1 = HIGH"
  by (simp add: stale_sink_def model_defs output_at_def)

theorem connect_rejected_witness:
  "console (snd (connect 1 1 0 stale_sink)) = [Error_connect_invalid]
   \<and> same_wiring stale_sink (snd (connect 1 1 0 stale_sink))
   \<and> heap (snd (connect 1 0 5 stale_sink)) = heap stale_sink"
proof -
  have 1: "1 \<notin> set (components stale_sink) \<or> 0 \<notin> set (components stale_sink)
      \<or> \<not> responds_to (heap stale_sink 1) AddOutput \<or> \<not> responds_to (heap stale_sink 0) AddInput"
    by (simp add: stale_sink_def)
  have u: "5 \<notin> set (components stale_sink)"
    by (simp add: stale_sink_def)
  then have 2: "0 \<notin> set (components stale_sink) \<or> 5 \<notin> set (components stale_sink)
      \<or> \<not> responds_to (heap stale_sink 0) AddOutput \<or> \<not> responds_to (heap stale_sink 5) AddInput"
    by simp
  have c: "console (snd (connect 1 1 0 stale_sink)) = [Error_connect_invalid]"
    by (simp add: stale_sink_def model_defs)
  from connect_rejected [OF 1, of 1]
  have w: "same_wiring stale_sink (snd (connect 1 1 0 stale_sink))"
    by blast
  from connect_rejected [OF 2, of 1] u
  have h: "heap (snd (connect 1 0 5 stale_sink)) = heap stale_sink"
    by blast
  show ?thesis
    using c w h by simp
qed

section \<open>Links are never duplicated\<close>

lemma distinct_links_store:
  "distinct_links s \<Longrightarrow> node_distinct nd \<Longrightarrow> distinct_links (store a nd s)"
  by (simp add: distinct_links_def store_def)

lemma distinct_links_log_msg [simp]: "distinct_links (log_msg m s) = distinct_links s"
  by (simp add: distinct_links_def log_msg_def)

lemma node_distinct_at: "distinct_links s \<Longrightarrow> node_distinct (heap s a)"
  by (simp add: distinct_links_def)

lemma node_distinct_set_outputs:
  "node_distinct nd \<Longrightarrow> distinct xs \<Longrightarrow> node_distinct (set_outputs xs nd)"
  by (cases nd) (simp_all add: node_distinct_def)

lemma node_distinct_set_inputs:
  "node_distinct nd \<Longrightarrow> distinct xs \<Longrightarrow> node_distinct (set_inputs xs nd)"
  by (cases nd) (simp_all add: node_distinct_def)

lemma node_distinct_set_input [simp]:
  "node_distinct (set_input x nd) = node_distinct nd"
  by (cases nd) (simp_all add: node_distinct_def)

lemma node_distinct_set_value [simp]:
  "node_distinct (set_value x nd) = node_distinct nd"
  by (cases nd) (simp_all add: node_distinct_def)

lemma node_distinct_outputs:
  "node_distinct nd \<Longrightarrow> outputs_of nd = Some outs \<Longrightarrow> distinct outs"
  by (simp add: node_distinct_def)

lemma node_distinct_inputs:
  "node_distinct nd \<Longrightarrow> inputs_of nd = Some ins \<Longrightarrow> distinct ins"
  by (simp add: node_distinct_def)

lemma distinct_links_update: "distinct_links s \<Longrightarrow> distinct_links (update a s)"
  by (simp add: update_def distinct_links_store node_distinct_at split: option.splits)

lemma same_wiring_distinct_links:
  "same_wiring s s' \<Longrightarrow> distinct_links s' = distinct_links s"
  by (simp add: same_wiring_def distinct_links_def node_distinct_def links_def)

lemma distinct_links_method_body:
  assumes call: "\<And>sel a b t e t'. call sel a b t = (e, t') \<Longrightarrow> distinct_links t \<Longrightarrow> distinct_links t'"
    and body: "method_body call sel this arg s = (e, s')"
    and inv: "distinct_links s"
  shows "distinct_links s'"
proof -
  note nd = node_distinct_at [OF inv]
  have 1: "addOutput call this arg s = (e, s') \<Longrightarrow> distinct_links s'"
    using inv nd [of this]
    by (auto simp add: addOutput_def Let_def split: option.splits if_splits
        dest!: call
        intro!: distinct_links_store node_distinct_set_outputs
        dest: node_distinct_outputs)
  have 2: "removeOutput call this arg s = (e, s') \<Longrightarrow> distinct_links s'"
    using inv nd [of this]
    by (auto simp add: removeOutput_def Let_def split: option.splits if_splits
        dest!: call
        intro!: distinct_links_store node_distinct_set_outputs
        dest: node_distinct_outputs)
  have 3: "LogicGate_addInput call this arg s = (e, s') \<Longrightarrow> distinct_links s'"
    using inv nd [of this]
    by (auto simp add: LogicGate_addInput_def Let_def node_distinct_def
        split: node.splits if_splits dest!: call intro!: distinct_links_store)
  have 4: "LogicGate_removeInput call this arg s = (e, s') \<Longrightarrow> distinct_links s'"
    using inv nd [of this]
    by (auto simp add: LogicGate_removeInput_def Let_def node_distinct_def
        split: node.splits if_splits dest!: call intro!: distinct_links_store)
  have 5: "OutputPoint_removeInput call this arg s = (e, s') \<Longrightarrow> distinct_links s'"
    using inv
    by (auto simp add: OutputPoint_removeInput_def Let_def
        split: option.splits if_splits prod.splits dest!: call
        intro!: distinct_links_store node_distinct_at)
  have 6: "OutputPoint_addInput call this arg s = (e, s') \<Longrightarrow> distinct_links s'"
    using inv
    by (auto simp add: OutputPoint_addInput_def Let_def
        split: option.splits if_splits prod.splits dest!: call
        intro!: distinct_links_store node_distinct_at distinct_links_update)
  show ?thesis
    using body 1 2 3 4 5 6 inv
    by (auto simp add: method_body_def split: node.splits selector.splits)
qed

lemma distinct_links_invoke:
  "invoke n sel this arg s = (e, s') \<Longrightarrow> distinct_links s \<Longrightarrow> distinct_links s'"
proof (induction n arbitrary: sel this arg s e s')
  case 0
  then show ?case by simp
next
  case (Suc n)
  from Suc.prems have "method_body (invoke n) sel this arg s = (e, s')" by simp
  then show ?case
    by (rule distinct_links_method_body [rotated]) (use Suc in auto)
qed

lemma distinct_links_forEach:
  assumes f: "\<And>x t e t'. f x t = (e, t') \<Longrightarrow> distinct_links t \<Longrightarrow> distinct_links t'"
  shows "forEach f xs s = (e, s') \<Longrightarrow> distinct_links s \<Longrightarrow> distinct_links s'"
proof (induction xs arbitrary: s)
  case Nil
  then show ?case by simp
next
  case (Cons x xs)
  obtain e1 s1 where fx: "f x s = (e1, s1)" by (cases "f x s")
  from f [OF fx Cons.prems(2)] have d1: "distinct_links s1" .
  show ?case
  proof (cases e1)
    case None
    with Cons.prems fx have "forEach f xs s1 = (e, s')" by simp
    from Cons.IH [OF this d1] show ?thesis .
  next
    case (Some x)
    with Cons.prems fx d1 show ?thesis by simp
  qed
qed

lemma distinct_links_propagate:
  "propagate s = (e, s') \<Longrightarrow> distinct_links s \<Longrightarrow> distinct_links s'"
  using propagate_frame same_wiring_distinct_links by blast

lemma distinct_links_registry_update [simp]:
  "distinct_links (s\<lparr>components := cs\<rparr>) = distinct_links s"
  "distinct_links (s\<lparr>inputPoints := ips\<rparr>) = distinct_links s"
  "distinct_links (s\<lparr>outputPoints := ops\<rparr>) = distinct_links s"
  "distinct_links (s\<lparr>gates := gs\<rparr>) = distinct_links s"
  by (simp_all add: distinct_links_def)

lemma distinct_links_addComponent [simp]:
  "distinct_links (addComponent c s) = distinct_links s"
  by (simp add: addComponent_def Let_def)

lemma distinct_links_connect:
  "connect n a b s = (e, s') \<Longrightarrow> distinct_links s \<Longrightarrow> distinct_links s'"
  by (auto simp add: connect_def split: if_splits prod.splits option.splits
      dest: distinct_links_invoke distinct_links_propagate)

lemma distinct_links_disconnect:
  "disconnect n a b s = (e, s') \<Longrightarrow> distinct_links s \<Longrightarrow> distinct_links s'"
  by (auto simp add: disconnect_def split: if_splits prod.splits option.splits
      dest: distinct_links_invoke distinct_links_propagate)

lemma distinct_links_unlink_each:
  "forEach (\<lambda>x st. if responds_to (heap st x) sel then invoke n sel x c st else (None, st))
      xs s = (e, s') \<Longrightarrow> distinct_links s \<Longrightarrow> distinct_links s'"
  by (erule distinct_links_forEach [rotated])
    (auto split: if_splits dest: distinct_links_invoke)

lemma distinct_links_removeComponent:
  "removeComponent n c s = (e, s') \<Longrightarrow> distinct_links s \<Longrightarrow> distinct_links s'"
  by (auto simp add: removeComponent_def Let_def
      split: if_splits prod.splits option.splits
      dest!: distinct_links_unlink_each distinct_links_invoke
      intro!: distinct_links_store node_distinct_set_outputs node_distinct_set_inputs
        node_distinct_at)

lemma distinct_links_api:
  "api n c s = (e, s') \<Longrightarrow> distinct_links s \<Longrightarrow> distinct_links s'"
  by (cases c)
    (auto simp add: setValue_def toggle_def split: if_splits
      dest: distinct_links_removeComponent distinct_links_connect distinct_links_disconnect
        distinct_links_propagate distinct_links_invoke
      intro!: distinct_links_store node_distinct_at)

lemma distinct_links_run: "distinct_links s \<Longrightarrow> distinct_links (run n cs s)"
proof (induction cs arbitrary: s)
  case Nil
  then show ?case by simp
next
  case (Cons c cs)
  obtain e s1 where a: "api n c s = (e, s1)" by (cases "api n c s")
  from distinct_links_api [OF a Cons.prems] have "distinct_links s1" .
  from Cons.IH [OF this] a show ?case by simp
qed

lemma same_wiring_log_msg_left [simp]: "same_wiring (log_msg m s) s' = same_wiring s s'"
  by (simp add: same_wiring_def log_msg_def registry_def)

lemma connect_linked:
  assumes "linked s a b"
  shows "same_wiring s (snd (connect n a b s))"
proof -
  obtain outs where outs: "outputs_of (heap s a) = Some outs" "b \<in> set outs"
    using assms by (auto simp add: linked_def split: option.splits)
  have call: "invoke n AddOutput a b s = (None, s) \<or> invoke n AddOutput a b s = (Some RangeError, s)"
    using outs by (cases n; cases "heap s a") (auto simp add: method_body_def addOutput_def)
  obtain e s' where c: "connect n a b s = (e, s')" by (cases "connect n a b s")
  have "same_wiring s s'"
    using c call
    by (auto simp add: connect_def split: if_splits prod.splits option.splits
        dest!: propagate_frame)
  with c show ?thesis by simp
qed

text \<open>
  C10. Starting from a state in which no node's \<^verbatim>\<open>inputs\<close> or \<^verbatim>\<open>outputs\<close> array has a
  duplicate entry (fresh nodes have empty arrays), no sequence of public calls produces
  one, whether a call returns or throws and whatever the room on the stack: calls of the
  simulation (\<^verbatim>\<open>addComponent\<close>, \<^verbatim>\<open>removeComponent\<close>, \<^verbatim>\<open>connect\<close>, \<^verbatim>\<open>disconnect\<close>,
  \<^verbatim>\<open>propagate\<close>), of an input point (\<^verbatim>\<open>setValue\<close>, \<^verbatim>\<open>toggle\<close>) and of the linking
  methods of the nodes themselves. And \<^verbatim>\<open>connect(a, b)\<close>, when \<open>a\<close> and \<open>b\<close> are already
  linked on both sides, leaves the registry and every node's link fields as they are.
\<close>

theorem links_never_duplicated:
  assumes "distinct_links s"
  shows "distinct_links (run n calls s)
    \<and> (linked s a b \<longrightarrow> same_wiring s (snd (connect n a b s)))"
  using assms by (simp add: distinct_links_run connect_linked)

theorem links_never_duplicated_witness:
  "distinct_links
     (run (Suc (Suc (Suc 0)))
        [Connect 0 2, Connect 0 2, Send AddInput 2 0, Connect 3 4, Connect 3 4,
         RemoveComponent 0] registered)
   \<and> outputs_of (heap (run (Suc (Suc (Suc 0))) [Connect 0 2, Connect 0 2] registered) 0)
       = Some [2]
   \<and> same_wiring (wired_gates (Suc (Suc (Suc 0))))
       (snd (connect (Suc (Suc (Suc 0))) 0 2 (wired_gates (Suc (Suc (Suc 0))))))"
proof -
  have d: "distinct_links registered"
    by (simp add: registered_eq circuit_heap_def fresh_heap_def distinct_links_def
        node_distinct_def new_InputPoint_def new_OutputPoint_def new_AndGate_def
        new_NotGate_def)
  have d': "distinct_links (wired_gates (Suc (Suc (Suc 0))))"
    by (simp add: wired_gates_eq fresh_heap_def distinct_links_def node_distinct_def
        new_InputPoint_def)
  have l: "linked (wired_gates (Suc (Suc (Suc 0)))) 0 2"
    by (simp add: wired_gates_eq linked_def)
  have twice: "outputs_of
      (heap (run (Suc (Suc (Suc 0))) [Connect 0 2, Connect 0 2] registered) 0) = Some [2]"
    by (simp add: registered_eq circuit_heap_def model_defs)
  show ?thesis
    using links_never_duplicated [OF d, of "Suc (Suc (Suc 0))"
        "[Connect 0 2, Connect 0 2, Send AddInput 2 0, Connect 3 4, Connect 3 4,
          RemoveComponent 0]"]
      links_never_duplicated [OF d', of "Suc (Suc (Suc 0))" "[]" 0 2] l twice
    by simp
qed

section \<open>The passes of a propagation\<close>

lemma after_passes_thrown:
  "after_passes j s = (Some e, c, s') \<Longrightarrow> j \<le> k \<Longrightarrow> after_passes k s = (Some e, c, s')"
  by (induction k) (auto simp add: le_Suc_eq)

lemma passes_run_bounds: "1 \<le> passes_run s \<and> passes_run s \<le> length (gates s) + 1"
proof -
  let ?S = "{k \<in> {2..length (gates s) + 1}. \<not> pass_changed k s} \<union> {length (gates s) + 1}"
  have fin: "finite ?S" by simp
  have "Min ?S \<in> ?S" by (rule Min_in) (simp_all)
  then show ?thesis unfolding passes_run_def by auto
qed

lemma passes_run_quiet:
  assumes "2 \<le> k" "k \<le> length (gates s) + 1" "\<not> pass_changed k s"
    and "\<And>j. 2 \<le> j \<Longrightarrow> j < k \<Longrightarrow> pass_changed j s"
  shows "passes_run s = k"
  unfolding passes_run_def
proof (rule Min_eqI)
  show "finite ({k \<in> {2..length (gates s) + 1}. \<not> pass_changed k s} \<union> {length (gates s) + 1})"
    by simp
  show "k \<in> {k \<in> {2..length (gates s) + 1}. \<not> pass_changed k s} \<union> {length (gates s) + 1}"
    using assms by simp
  fix y
  assume "y \<in> {k \<in> {2..length (gates s) + 1}. \<not> pass_changed k s} \<union> {length (gates s) + 1}"
  then show "k \<le> y"
    using assms by (auto simp add: not_less [symmetric])
qed

lemma passes_run_all:
  assumes "\<And>j. 2 \<le> j \<Longrightarrow> j \<le> length (gates s) + 1 \<Longrightarrow> pass_changed j s"
  shows "passes_run s = length (gates s) + 1"
proof -
  have "{k \<in> {2..length (gates s) + 1}. \<not> pass_changed k s} = {}"
    using assms by auto
  then have "passes_run s = Min ({} \<union> {length (gates s) + 1})"
    by (simp only: passes_run_def)
  then show ?thesis by simp
qed

lemma passes_run_beyond:
  assumes "\<And>j. 2 \<le> j \<Longrightarrow> j \<le> i \<Longrightarrow> pass_changed j s" "i < length (gates s) + 1"
  shows "i < passes_run s"
proof -
  let ?S = "{k \<in> {2..length (gates s) + 1}. \<not> pass_changed k s} \<union> {length (gates s) + 1}"
  have "Min ?S \<in> ?S" by (rule Min_in) simp_all
  then have "passes_run s \<in> ?S" by (simp only: passes_run_def)
  then consider "passes_run s = length (gates s) + 1"
    | "2 \<le> passes_run s" "\<not> pass_changed (passes_run s) s"
    by auto
  then show ?thesis
  proof cases
    case 1
    with assms(2) show ?thesis by simp
  next
    case 2
    with assms(1) [of "passes_run s"] have "\<not> passes_run s \<le> i" by auto
    then show ?thesis by simp
  qed
qed

lemma propagate_loop_passes:
  assumes "i \<le> length (gates s0) + 1"
    and "after_passes i s0 = (None, c, s)"
    and "\<And>j. 2 \<le> j \<Longrightarrow> j \<le> i \<Longrightarrow> pass_changed j s0"
  shows "propagate_loop i (length (gates s0) + 1) s =
           (case after_passes (passes_run s0) s0 of (e, c', s') \<Rightarrow> (e, s'))"
  using assms
proof (induction i "length (gates s0) + 1" s arbitrary: c rule: propagate_loop.induct)
  case (1 i s)
  let ?N = "length (gates s0) + 1"
  show ?case
  proof (cases "i < ?N")
    case False
    with "1.prems" have "i = ?N" by simp
    with "1.prems"(3) have "passes_run s0 = i" by (simp only: passes_run_all)
    with "1.prems"(2) have "after_passes (passes_run s0) s0 = (None, c, s)" by (simp only:)
    with False show ?thesis
      by (subst propagate_loop.simps) simp
  next
    case True
    obtain e1 c1 s1 where it: "iteration s = (e1, c1, s1)" by (cases "iteration s")
    with "1.prems" have next_pass: "after_passes (Suc i) s0 = (e1, c1, s1)" by simp
    show ?thesis
    proof (cases e1)
      case (Some e)
      have "Suc i \<le> passes_run s0"
        using passes_run_beyond [of i s0] "1.prems"(3) True by simp
      moreover from next_pass Some have "after_passes (Suc i) s0 = (Some e, c1, s1)"
        by (simp only:)
      ultimately have "after_passes (passes_run s0) s0 = (Some e, c1, s1)"
        by (rule after_passes_thrown [rotated])
      with True it Some show ?thesis
        by (subst propagate_loop.simps) simp
    next
      case None
      show ?thesis
      proof (cases "\<not> c1 \<and> i > 0")
        case True
        with next_pass have "\<not> pass_changed (Suc i) s0" by (simp add: pass_changed_def)
        with True \<open>i < ?N\<close> "1.prems" have "passes_run s0 = Suc i"
          by (intro passes_run_quiet) auto
        with True \<open>i < ?N\<close> it None next_pass show ?thesis
          by (subst propagate_loop.simps) simp
      next
        case False
        have "propagate_loop (i + 1) ?N s1 =
           (case after_passes (passes_run s0) s0 of (e, c', s') \<Rightarrow> (e, s'))"
        proof (rule "1.hyps" [OF \<open>i < ?N\<close> it [symmetric] None refl False])
          show "i + 1 \<le> ?N" using \<open>i < ?N\<close> by simp
          show "after_passes (i + 1) s0 = (None, c1, s1)" using next_pass None by simp
          fix j assume "2 \<le> j" "j \<le> i + 1"
          then show "pass_changed j s0"
            using "1.prems"(3) [of j] False next_pass
            by (cases "j = Suc i") (auto simp add: pass_changed_def)
        qed
        with False \<open>i < ?N\<close> it None show ?thesis
          by (subst propagate_loop.simps) auto
      qed
    qed
  qed
qed


text \<open>
  C4. \<^verbatim>\<open>propagate()\<close> makes \<open>passes_run\<close> passes and then refreshes the output points
  once more, where \<^verbatim>\<open>maxIterations\<close> is the number of registered gates plus one, a
  pass evaluates every gate in registration order and then refreshes every output point,
  and the loop is left early exactly at the first pass, not counting the first, that
  changed no gate output; at least one pass and at most \<^verbatim>\<open>maxIterations\<close> are made.
\<close>

theorem propagate_passes:
  "propagate s = propagate_spec s
   \<and> 1 \<le> passes_run s \<and> passes_run s \<le> length (gates s) + 1"
proof -
  have "propagate_loop 0 (length (gates s) + 1) s =
      (case after_passes (passes_run s) s of (e, c', s') \<Rightarrow> (e, s'))"
    by (rule propagate_loop_passes [where c = False]) simp_all
  then have "propagate s = propagate_spec s"
    by (cases "after_passes (passes_run s) s")
      (auto simp add: propagate_def propagate_spec_def Let_def split: option.splits)
  with passes_run_bounds [of s] show ?thesis by simp
qed

lemmas gate_defs =
  iteration_def evaluate_def AndGate_evaluate_def NotGate_evaluate_def NAndGate_evaluate_def
  getInputValue_def store_def update_outputPoints_def call_update_def update_def
  HIGH_def LOW_def

theorem propagate_passes_witness:
  "passes_run late_gate = 3
   \<and> propagate late_gate = propagate_spec late_gate
   \<and> output_at (snd (propagate_spec late_gate)) 4 = HIGH"
proof -
  have 2: "pass_changed (Suc (Suc 0)) late_gate"
    by (simp add: pass_changed_def late_gate_def gate_defs)
  have 3: "\<not> pass_changed (Suc (Suc (Suc 0))) late_gate"
    by (simp add: pass_changed_def late_gate_def gate_defs)
  have "passes_run late_gate = Suc (Suc (Suc 0))"
  proof (rule passes_run_quiet [OF _ _ 3])
    fix j assume "2 \<le> j" "j < Suc (Suc (Suc 0))"
    then have "j = Suc (Suc 0)" by simp
    with 2 show "pass_changed j late_gate" by simp
  qed (simp_all add: late_gate_def)
  then have n: "passes_run late_gate = 3" by simp
  have out: "output_at (snd (propagate late_gate)) 4 = HIGH"
    by (simp add: late_gate_def propagate_def propagate_loop.simps gate_defs output_at_def)
  show ?thesis
    using propagate_passes [of late_gate] n out by simp
qed

section \<open>Propagating twice\<close>

lemma set_value_getOutput [simp]: "set_value (getOutput nd) nd = nd"
  by (cases nd) simp_all

lemma getOutput_set_value [simp]: "getOutput (set_value x nd) = x"
  by (cases nd) simp_all

lemma set_value_set_value [simp]: "set_value x (set_value y nd) = set_value x nd"
  by (cases nd) simp_all

lemma observers_set_value [simp]:
  "is_OutputPoint (set_value x nd) = is_OutputPoint nd"
  "is_InputPoint (set_value x nd) = is_InputPoint nd"
  "is_Gate (set_value x nd) = is_Gate nd"
  "input_of (set_value x nd) = input_of nd"
  "inputs_of (set_value x nd) = inputs_of nd"
  "outputs_of (set_value x nd) = outputs_of nd"
  "name_of (set_value x nd) = name_of nd"
  by (cases nd; simp)+

lemma with_values_self: "with_values s (output_at s) = s"
  by (simp add: with_values_def output_at_def)

lemma with_values_fields [simp]:
  "heap (with_values s v) a = set_value (v a) (heap s a)"
  "gates (with_values s v) = gates s"
  "outputPoints (with_values s v) = outputPoints s"
  "inputPoints (with_values s v) = inputPoints s"
  "components (with_values s v) = components s"
  "console (with_values s v) = console s"
  by (simp_all add: with_values_def)

lemma output_at_with_values [simp]: "output_at (with_values s v) a = v a"
  by (simp add: output_at_def)

lemma store_with_values:
  "store a (set_value x (heap s a)) (with_values s v) = with_values s (v(a := x))"
proof -
  have "(\<lambda>b. set_value (v b) (heap s b))(a := set_value x (heap s a))
      = (\<lambda>b. set_value ((v(a := x)) b) (heap s b))"
    by (rule ext) simp
  then have "s\<lparr>heap := (\<lambda>b. set_value (v b) (heap s b))(a := set_value x (heap s a))\<rparr>
      = s\<lparr>heap := (\<lambda>b. set_value ((v(a := x)) b) (heap s b))\<rparr>"
    by (simp only:)
  then show ?thesis
    unfolding store_def with_values_def by simp
qed

lemma getInputValue_with_values:
  "getInputValue (with_values s v) ins i = nth_low (map v ins) i"
  by (simp add: getInputValue_def nth_low_def)

lemma evaluate_with_values:
  assumes "heap s g = Gate c nm ins ov outs mx" "c \<noteq> LogicGate"
  shows "evaluate g (with_values s v) = (None, with_values s (v(g := target s v g)))"
proof -
  let ?t = "with_values s v"
  let ?x = "gate_fn c mx (map v ins)"
  have hv: "heap ?t g = Gate c nm ins (v g) outs mx"
    using assms by simp
  have "evaluate g ?t = (None, store g (Gate c nm ins ?x outs mx) ?t)"
    using assms(2)
    by (cases c)
      (simp_all add: evaluate_def AndGate_evaluate_def NotGate_evaluate_def
        NAndGate_evaluate_def hv getInputValue_with_values Let_def
        del: with_values_fields)
  moreover have "Gate c nm ins ?x outs mx = set_value ?x (heap s g)"
    using assms by simp
  moreover have "target s v g = ?x"
    using assms by (simp add: target_def)
  ultimately show ?thesis
    by (simp only: store_with_values)
qed

lemma evaluate_ok:
  "gate_ok s g \<Longrightarrow> evaluate g (with_values s v) = (None, with_values s (v(g := target s v g)))"
  by (cases "heap s g") (auto simp add: gate_ok_def evaluate_with_values)

lemma evaluate_gates_with_values:
  "\<forall>g \<in> set gs. gate_ok s g \<Longrightarrow>
   evaluate_gates gs c (with_values s v) =
     (None, c \<or> changes s gs v, with_values s (eval_all s gs v))"
proof (induction gs arbitrary: c v)
  case Nil
  then show ?case by simp
next
  case (Cons g gs)
  then have ev: "evaluate g (with_values s v) = (None, with_values s (v(g := target s v g)))"
    by (simp add: evaluate_ok)
  have "evaluate_gates gs (if target s v g \<noteq> v g then True else c)
          (with_values s (v(g := target s v g)))
      = (None, (if target s v g \<noteq> v g then True else c) \<or> changes s gs (v(g := target s v g)),
         with_values s (eval_all s gs (v(g := target s v g))))"
    using Cons.prems by (intro Cons.IH) simp
  then show ?case
    by (auto simp add: ev Let_def)
qed

lemma update_with_values:
  "update out (with_values s v) = with_values s (v(out := source_value s v out))"
  by (simp add: update_def source_value_def store_with_values [symmetric] split: option.splits)

lemma refresh_with_values:
  "\<forall>out \<in> set outs. is_OutputPoint (heap s out) \<Longrightarrow>
   forEach call_update outs (with_values s v) = (None, with_values s (refresh_all s outs v))"
proof (induction outs arbitrary: v)
  case Nil
  then show ?case by simp
next
  case (Cons out outs)
  then have "call_update out (with_values s v)
      = (None, with_values s (v(out := source_value s v out)))"
    by (simp add: call_update_def update_with_values)
  with Cons show ?case by simp
qed

lemma circuit_ok_gates: "circuit_ok s \<Longrightarrow> g \<in> set (gates s) \<Longrightarrow> gate_ok s g"
  by (auto simp add: circuit_ok_def gate_ok_def split: node.splits)

lemma circuit_ok_sinks: "circuit_ok s \<Longrightarrow> out \<in> set (outputPoints s) \<Longrightarrow> is_OutputPoint (heap s out)"
  by (auto simp add: circuit_ok_def)

lemma update_outputPoints_with_values:
  "circuit_ok s \<Longrightarrow>
   update_outputPoints (with_values s v) =
     (None, with_values s (refresh_all s (outputPoints s) v))"
  by (simp add: update_outputPoints_def refresh_with_values circuit_ok_sinks)

lemma iteration_with_values:
  "circuit_ok s \<Longrightarrow>
   iteration (with_values s v) =
     (None, changes s (gates s) v,
      with_values s (refresh_all s (outputPoints s) (eval_all s (gates s) v)))"
  by (simp add: iteration_def evaluate_gates_with_values circuit_ok_gates
      update_outputPoints_with_values)

lemma target_upd:
  assumes "gate_ok s h" "a \<notin> set (case inputs_of (heap s h) of Some ins \<Rightarrow> ins | None \<Rightarrow> [])"
  shows "target s (v(a := x)) h = target s v h"
proof -
  obtain c nm ins ov outs mx where h: "heap s h = Gate c nm ins ov outs mx"
    using assms(1) by (auto simp add: gate_ok_def split: node.splits)
  with assms(2) have "map (v(a := x)) ins = map v ins"
    by (intro map_cong) auto
  then show ?thesis
    unfolding target_def h by (simp only: node.case)
qed

lemma levelled_input:
  "levelled s level \<Longrightarrow> h \<in> set (gates s) \<Longrightarrow> g \<in> set (gates s) \<Longrightarrow>
   g \<in> set (case inputs_of (heap s h) of Some ins \<Rightarrow> ins | None \<Rightarrow> []) \<Longrightarrow> level g < level h"
  by (auto simp add: levelled_def)

lemma settled_step:
  assumes ok: "circuit_ok s" and lev: "levelled s level" and g: "g \<in> set (gates s)"
    and inv: "settled_upto s level k done v"
  shows "settled_upto s level k (insert g done) (v(g := target s v g))"
proof (cases "v g = target s v g")
  case True
  then have "v(g := target s v g) = v" by (simp add: fun_upd_idem)
  with inv True show ?thesis
    by (auto simp add: settled_upto_def)
next
  case False
  with inv g have far: "\<not> level g < k" "level g = k \<Longrightarrow> g \<notin> done"
    by (auto simp add: settled_upto_def)
  show ?thesis
    unfolding settled_upto_def
  proof (intro ballI impI)
    fix h
    assume h: "h \<in> set (gates s)"
      and q: "level h < k \<or> level h = k \<and> h \<in> insert g done"
    have notin: "g \<notin> set (case inputs_of (heap s h) of Some ins \<Rightarrow> ins | None \<Rightarrow> [])"
    proof
      assume "g \<in> set (case inputs_of (heap s h) of Some ins \<Rightarrow> ins | None \<Rightarrow> [])"
      from levelled_input [OF lev h g this] q far show False by auto
    qed
    have same: "target s (v(g := target s v g)) h = target s v h"
      using circuit_ok_gates [OF ok h] notin by (rule target_upd)
    show "(v(g := target s v g)) h = target s (v(g := target s v g)) h"
    proof (cases "h = g")
      case True
      with same show ?thesis by simp
    next
      case False
      with q far have "level h < k \<or> level h = k \<and> h \<in> done" by auto
      with inv h have "v h = target s v h" by (auto simp add: settled_upto_def)
      with False same show ?thesis by simp
    qed
  qed
qed

lemma eval_all_settles:
  assumes ok: "circuit_ok s" and lev: "levelled s level"
  shows "set gs \<subseteq> set (gates s) \<Longrightarrow> settled_upto s level k done v \<Longrightarrow>
         settled_upto s level k (done \<union> set gs) (eval_all s gs v)"
proof (induction gs arbitrary: "done" v)
  case Nil
  then show ?case by simp
next
  case (Cons g gs)
  from Cons.prems have g: "g \<in> set (gates s)" by simp
  from settled_step [OF ok lev g Cons.prems(2)]
  have "settled_upto s level k (insert g done) (v(g := target s v g))" .
  moreover have sub: "set gs \<subseteq> set (gates s)"
    using Cons.prems(1) by simp
  ultimately
  have "settled_upto s level k (insert g done \<union> set gs) (eval_all s gs (v(g := target s v g)))"
    by (rule Cons.IH [rotated])
  moreover have "insert g done \<union> set gs = done \<union> set (g # gs)"
    by auto
  ultimately show ?case
    by (simp only: eval_all.simps)
qed

lemma pass_settles_level:
  assumes ok: "circuit_ok s" and lev: "levelled s level"
    and inv: "settled_upto s level k {} v"
  shows "settled_upto s level (Suc k) {} (eval_all s (gates s) v)"
proof -
  from eval_all_settles [OF ok lev subset_refl inv]
  have "settled_upto s level k (set (gates s)) (eval_all s (gates s) v)" by simp
  then show ?thesis
    by (auto simp add: settled_upto_def less_Suc_eq)
qed

lemma settled_upto_all:
  "levelled s level \<Longrightarrow> length (gates s) \<le> k \<Longrightarrow> settled_upto s level k done v \<Longrightarrow> all_settled s v"
  by (fastforce simp add: settled_upto_def all_settled_def levelled_def)

lemma quiet_pass:
  "\<not> changes s gs v \<Longrightarrow> eval_all s gs v = v \<and> (\<forall>g \<in> set gs. v g = target s v g)"
proof (induction gs arbitrary: v)
  case Nil
  then show ?case by simp
next
  case (Cons g gs)
  then have eq: "target s v g = v g" and rest: "\<not> changes s gs (v(g := target s v g))"
    by simp_all
  from eq have "v(g := target s v g) = v" by (simp add: fun_upd_idem)
  with Cons.IH [OF rest] eq show ?case by simp
qed

lemma settled_quiet:
  "\<forall>g \<in> set gs. v g = target s v g \<Longrightarrow> \<not> changes s gs v \<and> eval_all s gs v = v"
proof (induction gs arbitrary: v)
  case Nil
  then show ?case by simp
next
  case (Cons g gs)
  then have "v(g := target s v g) = v" by (simp add: fun_upd_idem)
  with Cons show ?case by simp
qed

lemma circuit_ok_gate:
  assumes "circuit_ok s" "h \<in> set (gates s)"
  obtains c nm ins ov outs mx where "heap s h = Gate c nm ins ov outs mx" "c \<noteq> LogicGate"
    "\<forall>i \<in> set ins. \<not> is_OutputPoint (heap s i)"
proof -
  from assms have "case heap s h of
      Gate c nm ins ov outs mx \<Rightarrow> c \<noteq> LogicGate \<and> (\<forall>i \<in> set ins. \<not> is_OutputPoint (heap s i))
    | _ \<Rightarrow> False"
    by (simp add: circuit_ok_def)
  with that show ?thesis
    by (cases "heap s h") auto
qed

lemma sink_not_gate_input:
  assumes "circuit_ok s" "h \<in> set (gates s)" "is_OutputPoint (heap s out)"
  shows "out \<notin> set (case inputs_of (heap s h) of Some ins \<Rightarrow> ins | None \<Rightarrow> [])"
proof -
  from assms(1,2) obtain c nm ins ov outs mx where
    "heap s h = Gate c nm ins ov outs mx" "\<forall>i \<in> set ins. \<not> is_OutputPoint (heap s i)"
    by (rule circuit_ok_gate)
  with assms(3) show ?thesis by auto
qed

lemma sink_not_gate:
  assumes "circuit_ok s" "h \<in> set (gates s)" "is_OutputPoint (heap s out)"
  shows "h \<noteq> out"
proof -
  from assms(1,2) obtain c nm ins ov outs mx where "heap s h = Gate c nm ins ov outs mx"
    by (rule circuit_ok_gate)
  with assms(3) show ?thesis by auto
qed

lemma refresh_keeps_settled:
  assumes ok: "circuit_ok s"
  shows "\<forall>out \<in> set outs. is_OutputPoint (heap s out) \<Longrightarrow> all_settled s v \<Longrightarrow>
         all_settled s (refresh_all s outs v)"
proof (induction outs arbitrary: v)
  case Nil
  then show ?case by simp
next
  case (Cons out outs)
  have out: "is_OutputPoint (heap s out)" using Cons.prems(1) by simp
  have "all_settled s (v(out := source_value s v out))"
    unfolding all_settled_def
  proof
    fix h assume h: "h \<in> set (gates s)"
    have "target s (v(out := source_value s v out)) h = target s v h"
      using circuit_ok_gates [OF ok h] sink_not_gate_input [OF ok h out] by (rule target_upd)
    moreover have "h \<noteq> out" using sink_not_gate [OF ok h out] .
    moreover have "v h = target s v h" using Cons.prems(2) h by (simp add: all_settled_def)
    ultimately show "(v(out := source_value s v out)) h = target s (v(out := source_value s v out)) h"
      by simp
  qed
  moreover have "\<forall>out \<in> set outs. is_OutputPoint (heap s out)"
    using Cons.prems(1) by simp
  ultimately have "all_settled s (refresh_all s outs (v(out := source_value s v out)))"
    by (rule Cons.IH [rotated])
  then show ?case by (simp only: refresh_all.simps)
qed

lemma refresh_keeps_level:
  assumes ok: "circuit_ok s"
  shows "\<forall>out \<in> set outs. is_OutputPoint (heap s out) \<Longrightarrow> settled_upto s level k done v \<Longrightarrow>
         settled_upto s level k done (refresh_all s outs v)"
proof (induction outs arbitrary: v)
  case Nil
  then show ?case by simp
next
  case (Cons out outs)
  have out: "is_OutputPoint (heap s out)" using Cons.prems(1) by simp
  have "settled_upto s level k done (v(out := source_value s v out))"
    unfolding settled_upto_def
  proof (intro ballI impI)
    fix h assume h: "h \<in> set (gates s)" and q: "level h < k \<or> level h = k \<and> h \<in> done"
    have "target s (v(out := source_value s v out)) h = target s v h"
      using circuit_ok_gates [OF ok h] sink_not_gate_input [OF ok h out] by (rule target_upd)
    moreover have "h \<noteq> out" using sink_not_gate [OF ok h out] .
    moreover have "v h = target s v h" using Cons.prems(2) h q by (auto simp add: settled_upto_def)
    ultimately show "(v(out := source_value s v out)) h = target s (v(out := source_value s v out)) h"
      by simp
  qed
  moreover have "\<forall>out \<in> set outs. is_OutputPoint (heap s out)"
    using Cons.prems(1) by simp
  ultimately have "settled_upto s level k done (refresh_all s outs (v(out := source_value s v out)))"
    by (rule Cons.IH [rotated])
  then show ?case by (simp only: refresh_all.simps)
qed

lemma refresh_all_value:
  "\<forall>out \<in> set outs. (case input_of (heap s out) of Some src \<Rightarrow> src \<notin> set outs | None \<Rightarrow> True) \<Longrightarrow>
   refresh_all s outs v a = (if a \<in> set outs then source_value s v a else v a)"
proof (induction outs arbitrary: v)
  case Nil
  then show ?case by simp
next
  case (Cons out outs)
  let ?v = "v(out := source_value s v out)"
  have ih: "refresh_all s outs ?v a = (if a \<in> set outs then source_value s ?v a else ?v a)"
    using Cons.prems by (intro Cons.IH) (auto split: option.splits)
  have src: "b \<in> set (out # outs) \<Longrightarrow> source_value s ?v b = source_value s v b" for b
    using Cons.prems by (auto simp add: source_value_def split: option.splits)
  show ?case
    using ih src [of a] by auto
qed

lemma sources_outside:
  assumes "circuit_ok s"
  shows "\<forall>out \<in> set (outputPoints s).
           (case input_of (heap s out) of Some src \<Rightarrow> src \<notin> set (outputPoints s) | None \<Rightarrow> True)"
proof
  fix out assume out: "out \<in> set (outputPoints s)"
  show "case input_of (heap s out) of Some src \<Rightarrow> src \<notin> set (outputPoints s) | None \<Rightarrow> True"
  proof (cases "input_of (heap s out)")
    case None
    then show ?thesis by simp
  next
    case (Some src)
    with assms out have "\<not> is_OutputPoint (heap s src)"
      by (fastforce simp add: circuit_ok_def)
    with assms have "src \<notin> set (outputPoints s)"
      by (auto simp add: circuit_ok_def)
    with Some show ?thesis by simp
  qed
qed

lemma refresh_mirrors:
  assumes "circuit_ok s"
  shows "all_mirrored s (refresh_all s (outputPoints s) v)"
  unfolding all_mirrored_def
proof
  fix out assume out: "out \<in> set (outputPoints s)"
  note val = refresh_all_value [OF sources_outside [OF assms]]
  have "source_value s (refresh_all s (outputPoints s) v) out = source_value s v out"
    using sources_outside [OF assms] out
    by (auto simp add: source_value_def val split: option.splits)
  with out show "refresh_all s (outputPoints s) v out
      = source_value s (refresh_all s (outputPoints s) v) out"
    by (simp add: val)
qed

lemma mirrored_refresh:
  assumes "circuit_ok s" "all_mirrored s v"
  shows "refresh_all s (outputPoints s) v = v"
proof
  fix a
  show "refresh_all s (outputPoints s) v a = v a"
    using assms(2) by (simp add: refresh_all_value [OF sources_outside [OF assms(1)]] all_mirrored_def)
qed

lemma loop_converges:
  assumes ok: "circuit_ok s" and lev: "levelled s level"
  shows "i \<le> length (gates s) + 1 \<Longrightarrow> settled_upto s level i {} v \<Longrightarrow>
         \<exists>v'. propagate_loop i (length (gates s) + 1) (with_values s v) = (None, with_values s v')
              \<and> all_settled s v'"
proof (induction "length (gates s) + 1 - i" arbitrary: i v)
  case 0
  then have i: "i = length (gates s) + 1" by simp
  with lev "0.prems"(2) have "all_settled s v"
    by (intro settled_upto_all [where k = i]) simp_all
  moreover have "propagate_loop i (length (gates s) + 1) (with_values s v) = (None, with_values s v)"
    using i by (subst propagate_loop.simps) simp
  ultimately show ?case by blast
next
  case (Suc d)
  then have lt: "i < length (gates s) + 1" by simp
  let ?v1 = "refresh_all s (outputPoints s) (eval_all s (gates s) v)"
  have it: "iteration (with_values s v) = (None, changes s (gates s) v, with_values s ?v1)"
    using ok by (rule iteration_with_values)
  have sinks: "\<forall>out \<in> set (outputPoints s). is_OutputPoint (heap s out)"
    using ok by (simp add: circuit_ok_sinks)
  show ?case
  proof (cases "\<not> changes s (gates s) v \<and> i > 0")
    case True
    then have "eval_all s (gates s) v = v" "all_settled s v"
      using quiet_pass [of s "gates s" v] by (simp_all add: all_settled_def)
    then have "all_settled s ?v1"
      using refresh_keeps_settled [OF ok sinks] by simp
    moreover have "propagate_loop i (length (gates s) + 1) (with_values s v)
        = (None, with_values s ?v1)"
      using lt True it by (subst propagate_loop.simps) simp
    ultimately show ?thesis by blast
  next
    case False
    have "settled_upto s level (Suc i) {} (eval_all s (gates s) v)"
      using ok lev Suc.prems(2) by (rule pass_settles_level)
    then have "settled_upto s level (Suc i) {} ?v1"
      using refresh_keeps_level [OF ok sinks] by simp
    moreover have "d = length (gates s) + 1 - Suc i" using Suc.hyps(2) by simp
    moreover have "Suc i \<le> length (gates s) + 1" using lt by simp
    ultimately obtain v' where
      "propagate_loop (Suc i) (length (gates s) + 1) (with_values s ?v1) = (None, with_values s v')"
      "all_settled s v'"
      using Suc.hyps(1) [of "Suc i" ?v1] by blast
    moreover have "propagate_loop i (length (gates s) + 1) (with_values s v)
        = propagate_loop (Suc i) (length (gates s) + 1) (with_values s ?v1)"
      using lt False it by (subst propagate_loop.simps) auto
    ultimately show ?thesis by auto
  qed
qed

lemma fixed_point_propagate:
  assumes ok: "circuit_ok s" and set: "all_settled s v" and mir: "all_mirrored s v"
  shows "propagate (with_values s v) = (None, with_values s v)"
proof -
  let ?t = "with_values s v"
  let ?N = "length (gates s) + 1"
  have ev: "\<not> changes s (gates s) v" "eval_all s (gates s) v = v"
    using settled_quiet [of "gates s" v s] set by (simp_all add: all_settled_def)
  have rf: "refresh_all s (outputPoints s) v = v"
    using ok mir by (rule mirrored_refresh)
  have it: "iteration ?t = (None, False, ?t)"
    using iteration_with_values [OF ok, of v] ev rf by simp
  have up: "update_outputPoints ?t = (None, ?t)"
    using update_outputPoints_with_values [OF ok, of v] rf by simp
  have l1: "propagate_loop (Suc 0) ?N ?t = (None, ?t)"
    using it by (subst propagate_loop.simps) simp
  have "propagate_loop 0 ?N ?t = propagate_loop (Suc 0) ?N ?t"
    using it by (subst propagate_loop.simps) simp
  with l1 have "propagate_loop 0 ?N ?t = (None, ?t)" by simp
  with up show ?thesis
    by (simp add: propagate_def)
qed

lemma propagate_reaches_fixed_point:
  assumes ok: "circuit_ok s" and lev: "levelled s level"
  shows "\<exists>v. propagate s = (None, with_values s v) \<and> all_settled s v \<and> all_mirrored s v"
proof -
  have "settled_upto s level 0 {} (output_at s)"
    by (simp add: settled_upto_def)
  with loop_converges [OF ok lev, of 0 "output_at s"] obtain v' where
    loop: "propagate_loop 0 (length (gates s) + 1) (with_values s (output_at s))
        = (None, with_values s v')" and st: "all_settled s v'"
    by auto
  let ?w = "refresh_all s (outputPoints s) v'"
  have sinks: "\<forall>out \<in> set (outputPoints s). is_OutputPoint (heap s out)"
    using ok by (simp add: circuit_ok_sinks)
  have "propagate s = (None, with_values s ?w)"
    using loop update_outputPoints_with_values [OF ok, of v']
    by (simp add: propagate_def with_values_self)
  moreover have "all_settled s ?w"
    using refresh_keeps_settled [OF ok sinks st] .
  moreover have "all_mirrored s ?w"
    using ok by (rule refresh_mirrors)
  ultimately show ?thesis by blast
qed

text \<open>
  C9, as amended. On a circuit without feedback, whose registered gates are of the
  evaluable classes and read input points or gates, and whose registered output points
  are fed by input points or gates, \<^verbatim>\<open>propagate()\<close> returns normally, and a second
  \<^verbatim>\<open>propagate()\<close> right after it leaves the whole state as it is: no gate output and
  no output-point value changes, and the two snapshots are the same.
\<close>

theorem propagate_idempotent:
  assumes "circuit_ok s" and "levelled s level"
  shows "fst (propagate s) = None
    \<and> propagate (snd (propagate s)) = (None, snd (propagate s))
    \<and> getCircuitState (snd (propagate (snd (propagate s)))) = getCircuitState (snd (propagate s))"
proof -
  from propagate_reaches_fixed_point [OF assms] obtain v where
    "propagate s = (None, with_values s v)" "all_settled s v" "all_mirrored s v"
    by blast
  with fixed_point_propagate [OF assms(1), of v] show ?thesis by simp
qed

lemma oscillator_once: "propagate oscillator = (None, oscillator\<lparr>heap := fresh_heap(0 := Gate NotGate ''Not1'' [0] HIGH [0] 1,
                        1 := Gate AndGate ''And1'' [] LOW [] 2)\<rparr>)"
  by (simp add: oscillator_def propagate_def propagate_loop.simps gate_defs fun_eq_iff)

lemma oscillator_twice: "propagate (snd (propagate oscillator)) = (None, oscillator)"
  by (simp add: oscillator_once) (simp add: oscillator_def propagate_def propagate_loop.simps gate_defs fun_eq_iff)

text \<open>
  C9 as stated, for every circuit state, fails where there is feedback: the NOT gate that
  feeds itself flips at each of the three passes of a propagation, so its output is HIGH
  after the first \<^verbatim>\<open>propagate()\<close> and LOW after the second, and the snapshots differ.
\<close>

theorem propagate_idempotent_counterexample:
  "fst (propagate oscillator) = None
   \<and> fst (propagate (snd (propagate oscillator))) = None
   \<and> getCircuitState (snd (propagate (snd (propagate oscillator))))
       \<noteq> getCircuitState (snd (propagate oscillator))"
proof -
  have first: "getCircuitState (snd (propagate oscillator)) =
      Inr \<lparr>snap_inputs = [], snap_gates = [(''Not1'', HIGH, [''Not1'']), (''And1'', LOW, [])],
           snap_outputs = [], snap_connections = [(''Not1'', ''Not1'')]\<rparr>"
    unfolding oscillator_once by (simp add: oscillator_def getCircuitState_def connections_of_def)
  have second: "getCircuitState (snd (propagate (snd (propagate oscillator)))) =
      Inr \<lparr>snap_inputs = [], snap_gates = [(''Not1'', LOW, [''Not1'']), (''And1'', LOW, [])],
           snap_outputs = [], snap_connections = [(''Not1'', ''Not1'')]\<rparr>"
    unfolding oscillator_twice by (simp add: oscillator_def getCircuitState_def connections_of_def)
  have none: "fst (propagate oscillator) = None"
    "fst (propagate (snd (propagate oscillator))) = None"
    unfolding oscillator_twice by (simp_all add: oscillator_once)
  show ?thesis
    unfolding first second by (simp add: none HIGH_def LOW_def)
qed

theorem propagate_idempotent_witness:
  "propagate (snd (propagate late_gate)) = (None, snd (propagate late_gate))
   \<and> output_at (snd (propagate late_gate)) 4 = HIGH"
proof -
  have ok: "circuit_ok late_gate"
    by (simp add: circuit_ok_def late_gate_def)
  have lev: "levelled late_gate (\<lambda>a. if a = 3 then 1 else 0)"
    by (simp add: levelled_def late_gate_def)
  have out: "output_at (snd (propagate late_gate)) 4 = HIGH"
    by (simp add: late_gate_def propagate_def propagate_loop.simps gate_defs output_at_def)
  show ?thesis
    using propagate_idempotent [OF ok lev] out by simp
qed

section \<open>How the example circuits arise\<close>

text \<open>
  The states used above are what public calls leave behind, with any room of two or three
  frames or more on the stack: \<open>fanout\<close> by \<^verbatim>\<open>connect\<close> alone, the others with a call of
  \<^verbatim>\<open>OutputPoint.addInput\<close> whose exception the caller catches.
\<close>

lemma fanout_built:
  "run (Suc (Suc (Suc n))) [AddComponent 0, AddComponent 1, AddComponent 2, Connect 0 1, Connect 0 2]
     (new_Simulation (fresh_heap(0 := new_InputPoint ''InputA'' LOW, 1 := new_NotGate ''Not1'',
                                 2 := new_NotGate ''Not2'')))
   = fanout"
  by (simp add: fanout_def model_defs fun_eq_iff)

lemma occupied_sink_built:
  "run (Suc (Suc n)) [Send AddInput 2 0, AddComponent 0, AddComponent 1, AddComponent 2]
     (new_Simulation (fresh_heap(0 := new_InputPoint ''A'' LOW, 1 := new_InputPoint ''B'' LOW,
                                 2 := new_OutputPoint ''Out'')))
   = occupied_sink"
  by (simp add: occupied_sink_def model_defs fun_eq_iff)

lemma stale_sink_built:
  "run (Suc (Suc n)) [Send AddInput 1 0, AddComponent 0, AddComponent 1, SetValue 0 HIGH]
     (new_Simulation (fresh_heap(0 := new_InputPoint ''A'' LOW, 1 := new_OutputPoint ''Out'')))
   = stale_sink"
  by (simp add: stale_sink_def model_defs fun_eq_iff)

lemma sink_chain_built:
  "run (Suc (Suc n))
     [Send AddInput 3 0, Send AddInput 2 3, Send AddInput 1 2,
      AddComponent 0, AddComponent 1, AddComponent 2, AddComponent 3]
     (new_Simulation (fresh_heap(0 := new_InputPoint ''A'' HIGH, 1 := new_OutputPoint ''O1'',
                                 2 := new_OutputPoint ''O2'', 3 := new_OutputPoint ''O3'')))
   = sink_chain"
  by (simp add: sink_chain_def model_defs fun_eq_iff)

text \<open>
  Without any gate, a row of output points is not settled by one propagation either: an
  output point refreshed before its source reads the source's old value.
\<close>

lemma sink_chain_once:
  "map (output_at (snd (propagate sink_chain))) [1, 2, 3] = [LOW, HIGH, HIGH]"
  by (simp add: sink_chain_def model_defs output_at_def)

lemma sink_chain_twice:
  "map (output_at (snd (propagate (snd (propagate sink_chain))))) [1, 2, 3] = [HIGH, HIGH, HIGH]"
  by (simp add: sink_chain_def model_defs output_at_def)

text \<open>
  A gate that holds \<^verbatim>\<open>maxInputs\<close> sources rejects another one: \<^verbatim>\<open>addInput\<close> prints
  the error and changes nothing else.
\<close>

lemma full_gate_rejects:
  assumes "heap s g = Gate c nm ins ov outs mx" "mx \<le> int (length ins)"
  shows "invoke (Suc n) AddInput g a s = (None, log_msg (Error_max_inputs nm mx) s)"
  using assms by (simp add: method_body_def LogicGate_addInput_def)

end
